theory Spec2Isabelle
  imports Main
begin

section \<open>The MCQ queue bot: store, scheduler and upload handler\<close>

text \<open>
  The repository holds three variants of one Telegram bot. The newest one (the file that
  starts "Telegram MCQ scheduler bot (Render-ready ...)") keeps every record and stamps
  \<open>posted_at\<close> on delivery; the two older ones (\<open>bot.js\<close> and the file that starts
  "bot.js - Telegram MCQ scheduler bot (JSON storage ...)") delete a record after posting
  it. The three share \<open>loadDB\<close> and \<open>saveDB\<close> word for word.

  Conventions of the embedding:
  \<^item> JavaScript numbers that the program only ever uses as integers (ids, indices,
    millisecond timestamps, Telegram user ids) are \<open>int\<close>. They are doubles in the
    program: the one place where it computes with them, adding 1 to \<open>nextId\<close> and to
    the largest id, is \<open>js_incr\<close>, which rounds as a double does.
  \<^item> A string is a list of UTF-16 code units below 256 (one \<open>char\<close> each); text with
    other code units is outside the type.
  \<^item> \<open>null\<close>/\<open>undefined\<close> is \<open>None\<close>.
  \<^item> The file \<open>DB_FILE\<close> is a value of type \<open>jsonfile\<close>; every store function takes the
    file and returns its result together with the file it leaves behind, so a function
    that never calls \<open>saveDB\<close> returns the file it was given.
  \<^item> \<open>Date.now()\<close> and the outcome of \<open>bot.telegram.sendPoll\<close> are inputs of the
    functions that read them.
  \<^item> Each handler runs as one step; reading and writing the file do not fail on
    their own (an unreadable file is the value \<open>Unreadable\<close>), and neither do the
    replies to the chat.
\<close>

subsection \<open>Records and the persisted document\<close>

text \<open>The fields every variant gives an entry: \<open>id\<close>, \<open>question\<close>, \<open>options\<close>.\<close>

record mcq_base =
  mcq_id :: int
  question :: string
  options :: "string list"

text \<open>
  The entry built by \<open>addMCQ\<close> of the newest variant. In a file this variant writes,
  \<open>posted_at\<close> and \<open>telegram_poll_id\<close> are always present, null or set.
\<close>

record mcq = mcq_base +
  correct_index :: int
  uploaded_by :: "int option"
  uploaded_at :: int
  posted_at :: "int option"
  telegram_poll_id :: "string option"

text \<open>The entry built by \<open>addMCQ\<close> of the two older variants.\<close>

record mcq_legacy = mcq_base +
  correctIndex :: int
  uploader :: int

text \<open>
  What \<open>fs.readFile\<close> followed by \<open>JSON.parse\<close> can yield: an exception
  (\<open>Unreadable\<close>: no file, or not JSON), or an object whose \<open>nextId\<close> and \<open>mcqs\<close>
  may each be missing.
\<close>

datatype 'm jsonfile = Unreadable | Json "int option" "'m list option"

record 'm db =
  nextId :: int
  mcqs :: "'m list"

text \<open>
  \<open>x + 1\<close> and \<open>x++\<close> on a double that holds the integer \<open>x\<close>. The sum is exact
  while it lies between \<open>-2^53\<close> and \<open>2^53\<close> (9007199254740992). From \<open>2^53\<close> up to
  \<open>2^54\<close> (18014398509481984) in size only the even integers are doubles, \<open>x + 1\<close> lies
  half way between two of them and goes to the one with the even significand, which is
  the multiple of 4: so \<open>2^53 + 1\<close> is \<open>2^53\<close> again. From \<open>2^54\<close> on in size the
  sum rounds back to \<open>x\<close>. (An integer that no double holds is not a value of the
  program.)
\<close>

definition js_incr :: "int \<Rightarrow> int" where
  "js_incr x =
     (if - 9007199254740992 \<le> x \<and> x < 9007199254740992 then x + 1
      else if x < - 18014398509481984 \<or> 18014398509481984 \<le> x then x
      else if x mod 4 = 0 then x else x + 2)"

text \<open>\<open>Math.max(...xs)\<close>, called by \<open>loadDB\<close> on a non-empty array only.\<close>

fun max_list :: "int list \<Rightarrow> int" where
  "max_list [] = 0"
| "max_list [x] = x"
| "max_list (x # y # ys) = max x (max_list (y # ys))"

text \<open>
  \<open>loadDB\<close>: the catch branch returns the empty document; a missing \<open>mcqs\<close> becomes
  \<open>[]\<close>; a falsy \<open>nextId\<close> (missing, or 0) is recomputed from the ids.
\<close>

definition loadDB :: "'a mcq_base_scheme jsonfile \<Rightarrow> 'a mcq_base_scheme db" where
  "loadDB f =
     (case f of
        Unreadable \<Rightarrow> \<lparr>nextId = 1, mcqs = []\<rparr>
      | Json n ms \<Rightarrow>
          (let ms1 = (case ms of None \<Rightarrow> [] | Some l \<Rightarrow> l);
               recomputed = (if ms1 \<noteq> [] then js_incr (max_list (map mcq_id ms1)) else 1);
               n1 = (case n of None \<Rightarrow> recomputed
                              | Some k \<Rightarrow> if k = 0 then recomputed else k)
           in \<lparr>nextId = n1, mcqs = ms1\<rparr>))"

definition saveDB :: "'m db \<Rightarrow> 'm jsonfile" where
  "saveDB d = Json (Some (nextId d)) (Some (mcqs d))"

subsection \<open>Store functions of the newest variant\<close>

text \<open>\<open>x || null\<close> on a number (0 is falsy) and on a string (the empty string is falsy).\<close>

definition num_or_null :: "int option \<Rightarrow> int option" where
  "num_or_null x = (case x of None \<Rightarrow> None | Some k \<Rightarrow> if k = 0 then None else Some k)"

definition str_or_null :: "string option \<Rightarrow> string option" where
  "str_or_null x = (case x of None \<Rightarrow> None | Some s \<Rightarrow> if s = [] then None else Some s)"

text \<open>
  \<open>addMCQ(question, options, correctIndex, uploadedBy)\<close>; \<open>now\<close> is \<open>Date.now()\<close>.
  \<open>id: db.nextId++\<close> gives the entry the old \<open>nextId\<close> and stores \<open>nextId + 1\<close>, as
  a double computes it.
\<close>

definition addMCQ ::
  "string \<Rightarrow> string list \<Rightarrow> int \<Rightarrow> int option \<Rightarrow> int \<Rightarrow> mcq jsonfile \<Rightarrow> mcq \<times> mcq jsonfile" where
  "addMCQ q opts correctIdx uploadedBy now f =
     (let d = loadDB f;
          entry = \<lparr>mcq_id = nextId d, question = q, options = opts,
                   correct_index = correctIdx, uploaded_by = num_or_null uploadedBy,
                   uploaded_at = now, posted_at = None, telegram_poll_id = None\<rparr>;
          d1 = d\<lparr>nextId := js_incr (nextId d), mcqs := mcqs d @ [entry]\<rparr>
      in (entry, saveDB d1))"

text \<open>\<open>getNextUnpostedMCQ\<close>: \<open>find\<close> is the first match in array order; no \<open>saveDB\<close>.\<close>

definition getNextUnpostedMCQ :: "mcq jsonfile \<Rightarrow> mcq option \<times> mcq jsonfile" where
  "getNextUnpostedMCQ f = (find (\<lambda>m. posted_at m = None) (mcqs (loadDB f)), f)"

text \<open>\<open>Array.prototype.findIndex\<close>; \<open>None\<close> stands for -1.\<close>

fun findIndex :: "('a \<Rightarrow> bool) \<Rightarrow> 'a list \<Rightarrow> nat option" where
  "findIndex P [] = None"
| "findIndex P (x # xs) = (if P x then Some 0 else map_option Suc (findIndex P xs))"

text \<open>
  \<open>markMCQPosted(id, pollId)\<close>: both fields are assigned without looking at their old
  values; when the id is absent nothing is written.
\<close>

definition markMCQPosted :: "int \<Rightarrow> string option \<Rightarrow> int \<Rightarrow> mcq jsonfile \<Rightarrow> mcq jsonfile" where
  "markMCQPosted i pollId now f =
     (let d = loadDB f in
      case findIndex (\<lambda>m. mcq_id m = i) (mcqs d) of
        None \<Rightarrow> f
      | Some idx \<Rightarrow>
          saveDB (d\<lparr>mcqs := (mcqs d)[idx := (mcqs d ! idx)\<lparr>posted_at := Some now,
                                     telegram_poll_id := str_or_null pollId\<rparr>]\<rparr>))"

definition countPendingMCQs :: "mcq jsonfile \<Rightarrow> nat \<times> mcq jsonfile" where
  "countPendingMCQs f = (length (filter (\<lambda>m. posted_at m = None) (mcqs (loadDB f))), f)"

subsection \<open>Scheduler of the newest variant\<close>

text \<open>
  The outcome of one \<open>sendPoll\<close> call: it throws, or it returns a response whose
  \<open>res?.poll?.id\<close> is a string or undefined.
\<close>

datatype delivery = Failed | Delivered "string option"

text \<open>The calls a run makes to the Telegram client and to \<open>markMCQPosted\<close>, in order.\<close>

datatype call = SendPoll string "string list" int | MarkPosted int "string option"

text \<open>
  The process state: the file, the two scheduler variables, the interval timers the
  runtime holds (\<open>setInterval\<close> adds one, \<open>clearInterval\<close> removes it) and the calls
  made so far. In the older variants \<open>schedulerHandle\<close> is called \<open>schedulerTimer\<close>.
\<close>

record 'm world =
  dbfile :: "'m jsonfile"
  schedulerHandle :: "nat option"
  schedulerPaused :: bool
  timers :: "nat list"
  timerSeq :: nat
  calls :: "call list"

definition setInterval :: "'m world \<Rightarrow> nat \<times> 'm world" where
  "setInterval w = (timerSeq w, w\<lparr>timers := timers w @ [timerSeq w], timerSeq := timerSeq w + 1\<rparr>)"

definition clearInterval :: "nat \<Rightarrow> 'm world \<Rightarrow> 'm world" where
  "clearInterval h w = w\<lparr>timers := removeAll h (timers w)\<rparr>"

definition pauseScheduler :: "'m world \<Rightarrow> 'm world" where
  "pauseScheduler w =
     (let w1 = (case schedulerHandle w of Some h \<Rightarrow> clearInterval h w | None \<Rightarrow> w)
      in w1\<lparr>schedulerHandle := None, schedulerPaused := True\<rparr>)"

text \<open>
  \<open>postNextMCQIfAny\<close>, one delivery attempt. \<open>r\<close> is what \<open>sendPoll\<close> does if it is
  called, \<open>now\<close> the clock read by \<open>markMCQPosted\<close>. The catch block only logs.
\<close>

definition postNextMCQIfAny :: "delivery \<Rightarrow> int \<Rightarrow> mcq world \<Rightarrow> mcq world" where
  "postNextMCQIfAny r now w =
     (case fst (getNextUnpostedMCQ (dbfile w)) of
        None \<Rightarrow> pauseScheduler w
      | Some m \<Rightarrow>
          (let w1 = w\<lparr>calls := calls w @ [SendPoll (question m) (options m) (correct_index m)]\<rparr>
           in case r of
                Failed \<Rightarrow> w1
              | Delivered pid \<Rightarrow>
                  (let pollId = str_or_null pid
                   in w1\<lparr>dbfile := markMCQPosted (mcq_id m) pollId now (dbfile w1),
                         calls := calls w1 @ [MarkPosted (mcq_id m) pollId]\<rparr>)))"

text \<open>
  \<open>startScheduler\<close>. The call \<open>postNextMCQIfAny()\<close> is not awaited: the attempt stops
  at its first \<open>await\<close> (the file read) before it touches any state, so its effects come
  after \<open>schedulerHandle = setInterval(...)\<close>.
\<close>

definition startScheduler :: "delivery \<Rightarrow> int \<Rightarrow> mcq world \<Rightarrow> mcq world" where
  "startScheduler r now w =
     (if schedulerHandle w \<noteq> None then w\<lparr>schedulerPaused := False\<rparr>
      else (let w1 = w\<lparr>schedulerPaused := False\<rparr>;
                (h, w2) = setInterval w1;
                w3 = w2\<lparr>schedulerHandle := Some h\<rparr>
            in postNextMCQIfAny r now w3))"

text \<open>The module's initial values, and the start-up block that follows them.\<close>

definition boot :: "'m jsonfile \<Rightarrow> 'm world" where
  "boot f = \<lparr>dbfile = f, schedulerHandle = None, schedulerPaused = True,
             timers = [], timerSeq = 0, calls = []\<rparr>"

definition init :: "delivery \<Rightarrow> int \<Rightarrow> mcq world \<Rightarrow> mcq world" where
  "init r now w = (if fst (countPendingMCQs (dbfile w)) > 0 then startScheduler r now w else w)"

subsection \<open>The upload handler of the newest variant\<close>

text \<open>
  \<open>Number(s)\<close> yields a double. The handler asks \<open>Number.isInteger\<close> first and
  compares only an integer, so a number is an integer or something that is not one
  (\<open>NaN\<close>, an infinity, a fraction). The conversion itself is an argument of the handler.
\<close>

datatype jsnum = Integer int | NonInteger

text \<open>\<open>s.replace(pat, rep)\<close> with a string pattern: the first occurrence only.\<close>

fun replace_first :: "string \<Rightarrow> string \<Rightarrow> string \<Rightarrow> string" where
  "replace_first pat rep [] = (if pat = [] then rep else [])"
| "replace_first pat rep (c # cs) =
     (if take (length pat) (c # cs) = pat then rep @ drop (length pat) (c # cs)
      else c # replace_first pat rep cs)"

text \<open>
  \<open>s.trim()\<close> strips white space and line terminators at both ends. Below 256 these
  are the code units 9 to 13, 32 and 160 (the no-break space); the others (U+1680,
  U+2000 to U+200A, U+2028, U+2029, U+202F, U+205F, U+3000, U+FEFF) are above 255.
\<close>

definition white :: "char \<Rightarrow> bool" where
  "white c =
     (c \<in> set [CHR 0x09, CHR 0x0A, CHR 0x0B, CHR 0x0C, CHR 0x0D, CHR 0x20, CHR 0xA0])"

definition js_trim :: "string \<Rightarrow> string" where
  "js_trim s = rev (dropWhile white (rev (dropWhile white s)))"

text \<open>\<open>s.split('||')\<close>.\<close>

fun split_bars :: "string \<Rightarrow> string list" where
  "split_bars [] = [[]]"
| "split_bars [c] = [[c]]"
| "split_bars (c # d # cs) =
     (if c = CHR ''|'' \<and> d = CHR ''|'' then [] # split_bars cs
      else (case split_bars (d # cs) of
              [] \<Rightarrow> [[c]]
            | p # ps \<Rightarrow> (c # p) # ps))"

text \<open>\<open>payload.split(sep).map(p => p.trim()).filter(Boolean)\<close>, given the split.\<close>

definition tokens :: "(string \<Rightarrow> string list) \<Rightarrow> string \<Rightarrow> string list" where
  "tokens split payload = filter (\<lambda>p. p \<noteq> []) (map js_trim (split payload))"

datatype reply =
  PrivateOnly | Usage | NeedParts | InvalidIndex | OptionsRange | Queued int | Restarted

text \<open>
  The handler from \<open>parts\<close> on (after \<open>const parts = ...\<close>): \<open>pop\<close> takes the last
  token, \<open>shift\<close> the first of what is left. \<open>sender\<close> is \<open>ctx.from.id\<close>, \<open>now\<close> the
  clock read by \<open>addMCQ\<close>; \<open>r\<close> and \<open>now'\<close> belong to the attempt that
  \<open>startScheduler\<close> makes.
\<close>

definition upload_parts ::
  "(string \<Rightarrow> jsnum) \<Rightarrow> string list \<Rightarrow> int \<Rightarrow> int \<Rightarrow> delivery \<Rightarrow> int \<Rightarrow> mcq world
     \<Rightarrow> reply list \<times> mcq world" where
  "upload_parts toNumber parts sender now r now' w =
     (if length parts < 3 then ([NeedParts], w)
      else
        (let correctIdx = toNumber (last parts);
             parts1 = butlast parts;
             q = hd parts1;
             opts = tl parts1
         in case correctIdx of
              NonInteger \<Rightarrow> ([InvalidIndex], w)
            | Integer i \<Rightarrow>
                if i < 0 \<or> i \<ge> int (length opts) then ([InvalidIndex], w)
                else if length opts < 2 \<or> length opts > 10 then ([OptionsRange], w)
                else
                  (let (entry, f1) = addMCQ q opts i (Some sender) now (dbfile w);
                       w1 = w\<lparr>dbfile := f1\<rparr>
                   in if schedulerPaused w1
                      then ([Queued (mcq_id entry), Restarted], startScheduler r now' w1)
                      else ([Queued (mcq_id entry)], w1))))"

text \<open>\<open>bot.command('upload', ...)\<close>; \<open>isPrivate\<close> is \<open>ctx.chat.type === 'private'\<close>.\<close>

definition upload ::
  "(string \<Rightarrow> jsnum) \<Rightarrow> bool \<Rightarrow> string \<Rightarrow> int \<Rightarrow> int \<Rightarrow> delivery \<Rightarrow> int \<Rightarrow> mcq world
     \<Rightarrow> reply list \<times> mcq world" where
  "upload toNumber isPrivate msg sender now r now' w =
     (if \<not> isPrivate then ([PrivateOnly], w)
      else
        (let payload = js_trim (replace_first ''/upload'' [] msg)
         in if payload = [] then ([Usage], w)
            else upload_parts toNumber (tokens split_bars payload) sender now r now' w))"

subsection \<open>Runs of the newest variant\<close>

text \<open>
  What can happen to the running process: an upload message, or a firing of the
  interval timer (which fires only while the runtime holds a timer).
\<close>

datatype event = Upload bool string int int delivery int | Tick delivery int

fun step :: "(string \<Rightarrow> jsnum) \<Rightarrow> event \<Rightarrow> mcq world \<Rightarrow> mcq world" where
  "step toNumber (Upload isPrivate msg sender now r now') w =
     snd (upload toNumber isPrivate msg sender now r now' w)"
| "step toNumber (Tick r now) w = (if timers w = [] then w else postNextMCQIfAny r now w)"

fun run :: "(string \<Rightarrow> jsnum) \<Rightarrow> event list \<Rightarrow> mcq world \<Rightarrow> mcq world" where
  "run toNumber [] w = w"
| "run toNumber (e # es) w = run toNumber es (step toNumber e w)"

subsection \<open>The older variants\<close>

text \<open>\<open>addMCQ\<close> of \<open>bot.js\<close>: the entry has five fields and nothing is defaulted.\<close>

definition addMCQ_legacy ::
  "string \<Rightarrow> string list \<Rightarrow> int \<Rightarrow> int \<Rightarrow> mcq_legacy jsonfile
     \<Rightarrow> mcq_legacy \<times> mcq_legacy jsonfile" where
  "addMCQ_legacy q opts correctIdx sender f =
     (let d = loadDB f;
          entry = \<lparr>mcq_id = nextId d, question = q, options = opts,
                   correctIndex = correctIdx, uploader = sender\<rparr>;
          d1 = d\<lparr>nextId := js_incr (nextId d), mcqs := mcqs d @ [entry]\<rparr>
      in (entry, saveDB d1))"

text \<open>
  \<open>getNextMCQ\<close> of the variant that calls \<open>db.mcqs.shift()\<close>: the shift changes the
  loaded copy \<open>d1\<close> only, which is dropped; nothing is saved.
\<close>

definition getNextMCQ :: "mcq_legacy jsonfile \<Rightarrow> mcq_legacy option \<times> mcq_legacy jsonfile" where
  "getNextMCQ f =
     (let d = loadDB f
      in case mcqs d of
           [] \<Rightarrow> (None, f)
         | m # rest \<Rightarrow> (let d1 = d\<lparr>mcqs := rest\<rparr> in (Some m, f)))"

definition removeMCQ :: "int \<Rightarrow> mcq_legacy jsonfile \<Rightarrow> mcq_legacy jsonfile" where
  "removeMCQ i f = (let d = loadDB f in saveDB (d\<lparr>mcqs := filter (\<lambda>q. mcq_id q \<noteq> i) (mcqs d)\<rparr>))"

text \<open>
  \<open>postNextQuestion\<close> of the variant whose \<open>getNextMCQ\<close> is above: an empty queue
  sets the flag and leaves the timer running; \<open>sendPoll\<close> is not in a \<open>try\<close>, so when
  it throws the attempt ends there, with the record still in the file.
\<close>

datatype failure = SendPollThrew

definition postNextQuestion :: "delivery \<Rightarrow> mcq_legacy world \<Rightarrow> failure + mcq_legacy world" where
  "postNextQuestion r w =
     (case fst (getNextMCQ (dbfile w)) of
        None \<Rightarrow> Inr (w\<lparr>schedulerPaused := True\<rparr>)
      | Some m \<Rightarrow>
          (let w1 = w\<lparr>calls := calls w @ [SendPoll (question m) (options m) (correctIndex m)]\<rparr>
           in case r of
                Failed \<Rightarrow> Inl SendPollThrew
              | Delivered pid \<Rightarrow> Inr (w1\<lparr>dbfile := removeMCQ (mcq_id m) (dbfile w1)\<rparr>)))"

text \<open>\<open>startScheduler\<close> of \<open>bot.js\<close>: no attempt of its own, and the old timer is cleared.\<close>

definition startScheduler_legacy :: "'m world \<Rightarrow> 'm world" where
  "startScheduler_legacy w =
     (let w1 = w\<lparr>schedulerPaused := False\<rparr>;
          w2 = (case schedulerHandle w1 of Some h \<Rightarrow> clearInterval h w1 | None \<Rightarrow> w1);
          (h, w3) = setInterval w2
      in w3\<lparr>schedulerHandle := Some h\<rparr>)"

text \<open>\<open>payload.split(/\|\||\||,/)\<close>: at each position \<open>||\<close> is tried before \<open>|\<close> and \<open>,\<close>.\<close>

fun split_seps :: "string \<Rightarrow> string list" where
  "split_seps [] = [[]]"
| "split_seps [c] = (if c = CHR ''|'' \<or> c = CHR '','' then [[], []] else [[c]])"
| "split_seps (c # d # cs) =
     (if c = CHR ''|'' \<and> d = CHR ''|'' then [] # split_seps cs
      else if c = CHR ''|'' \<or> c = CHR '','' then [] # split_seps (d # cs)
      else (case split_seps (d # cs) of
              [] \<Rightarrow> [[c]]
            | p # ps \<Rightarrow> (c # p) # ps))"

text \<open>\<open>bot.command('upload', ...)\<close> of \<open>bot.js\<close>: one test on the index, none on the count.\<close>

definition upload_legacy ::
  "(string \<Rightarrow> jsnum) \<Rightarrow> bool \<Rightarrow> string \<Rightarrow> int \<Rightarrow> mcq_legacy world
     \<Rightarrow> reply list \<times> mcq_legacy world" where
  "upload_legacy toNumber isPrivate msg sender w =
     (if \<not> isPrivate then ([PrivateOnly], w)
      else
        (let payload = js_trim (replace_first ''/upload'' [] msg)
         in if payload = [] then ([Usage], w)
            else
              (let parts = tokens split_seps payload
               in if length parts < 3 then ([NeedParts], w)
                  else
                    (let correctIdx = toNumber (last parts);
                         parts1 = butlast parts;
                         q = hd parts1;
                         opts = tl parts1
                     in case correctIdx of
                          NonInteger \<Rightarrow> ([InvalidIndex], w)
                        | Integer i \<Rightarrow>
                            if i < 0 \<or> i \<ge> int (length opts) then ([InvalidIndex], w)
                            else
                              (let (entry, f1) = addMCQ_legacy q opts i sender (dbfile w);
                                   w1 = w\<lparr>dbfile := f1\<rparr>
                               in ([Queued (mcq_id entry)],
                                   if schedulerPaused w1 then startScheduler_legacy w1 else w1))))))"

subsection \<open>The invariants of the document\<close>

text \<open>
  A well-formed document: \<open>nextId\<close> is positive and above every id, and the ids are
  positive and strictly increasing in array order (so they are pairwise different).
\<close>

definition wf_db :: "'a mcq_base_scheme db \<Rightarrow> bool" where
  "wf_db d =
     (0 < nextId d \<and> sorted_wrt (<) (map mcq_id (mcqs d)) \<and>
      list_all (\<lambda>m. 0 < mcq_id m \<and> mcq_id m < nextId d) (mcqs d))"

text \<open>The scheduler's two variables and the runtime's timers agree.\<close>

definition sched_inv :: "'m world \<Rightarrow> bool" where
  "sched_inv w =
     ((schedulerPaused w \<longleftrightarrow> schedulerHandle w = None) \<and>
      timers w = (case schedulerHandle w of None \<Rightarrow> [] | Some h \<Rightarrow> [h]))"

subsection \<open>Sequences of calls\<close>

text \<open>A sequence of \<open>addMCQ\<close> calls, each after the other; the entries come back in call order.\<close>

fun append_all ::
  "(string \<times> string list \<times> int \<times> int option \<times> int) list \<Rightarrow> mcq jsonfile \<Rightarrow> mcq list \<times> mcq jsonfile" where
  "append_all [] f = ([], f)"
| "append_all ((q, opts, ci, u, now) # rest) f =
     (let (e, f1) = addMCQ q opts ci u now f;
          (es, f2) = append_all rest f1
      in (e # es, f2))"

subsection \<open>Sample inputs\<close>

text \<open>
  A stand-in for \<open>Number\<close> in the examples: it is \<open>Number\<close> on strings of at most
  fifteen decimal digits (the empty string included, which is 0), and \<open>NonInteger\<close> on
  every string with another character, where \<open>Number\<close> may still find a number (as in
  \<open>1e3\<close>).
\<close>

fun number_of_digits :: "string \<Rightarrow> int \<Rightarrow> jsnum" where
  "number_of_digits [] acc = Integer acc"
| "number_of_digits (c # cs) acc =
     (if 48 \<le> (of_char c :: nat) \<and> (of_char c :: nat) \<le> 57
      then number_of_digits cs (10 * acc + int (of_char c) - 48)
      else NonInteger)"

definition sample_number :: "string \<Rightarrow> jsnum" where
  "sample_number s = number_of_digits s 0"

definition sample_mcq :: "int \<Rightarrow> int option \<Rightarrow> mcq" where
  "sample_mcq i p =
     \<lparr>mcq_id = i, question = ''2+2=?'', options = [''3'', ''4'', ''5''], correct_index = 1,
      uploaded_by = Some 7, uploaded_at = 10, posted_at = p, telegram_poll_id = None\<rparr>"

definition sample_legacy :: "int \<Rightarrow> mcq_legacy" where
  "sample_legacy i =
     \<lparr>mcq_id = i, question = ''2+2=?'', options = [''3'', ''4'', ''5''], correctIndex = 1,
      uploader = 7\<rparr>"

section \<open>Facts about the store\<close>

lemma mcqs_load_save: "mcqs (loadDB (saveDB d)) = mcqs d"
  by (simp add: loadDB_def saveDB_def Let_def)

lemma nextId_load_save: "nextId d \<noteq> 0 \<Longrightarrow> nextId (loadDB (saveDB d)) = nextId d"
  by (simp add: loadDB_def saveDB_def Let_def)

lemma fst_addMCQ:
  "fst (addMCQ q opts ci u now f) =
     \<lparr>mcq_id = nextId (loadDB f), question = q, options = opts, correct_index = ci,
      uploaded_by = num_or_null u, uploaded_at = now, posted_at = None,
      telegram_poll_id = None\<rparr>"
  by (simp add: addMCQ_def js_incr_def Let_def)

lemma mcqs_addMCQ:
  "mcqs (loadDB (snd (addMCQ q opts ci u now f))) = mcqs (loadDB f) @ [fst (addMCQ q opts ci u now f)]"
  by (simp add: addMCQ_def js_incr_def Let_def mcqs_load_save)

lemma js_incr_safe: "0 < x \<Longrightarrow> x < 9007199254740992 \<Longrightarrow> js_incr x = x + 1"
  by (simp add: js_incr_def)

lemma nextId_addMCQ:
  "0 < nextId (loadDB f) \<Longrightarrow> nextId (loadDB f) < 9007199254740992 \<Longrightarrow>
   nextId (loadDB (snd (addMCQ q opts ci u now f))) = nextId (loadDB f) + 1"
  by (simp add: addMCQ_def js_incr_def Let_def nextId_load_save js_incr_safe)

text \<open>Below \<open>2^53\<close> an \<open>addMCQ\<close> keeps the document well formed.\<close>

lemma wf_addMCQ:
  assumes "wf_db (loadDB f)" and safe: "nextId (loadDB f) < 9007199254740992"
  shows "wf_db (loadDB (snd (addMCQ q opts ci u now f)))"
proof -
  let ?d = "loadDB f"
  from assms have n: "0 < nextId ?d"
    and s: "sorted_wrt (<) (map mcq_id (mcqs ?d))"
    and b: "list_all (\<lambda>m. 0 < mcq_id m \<and> mcq_id m < nextId ?d) (mcqs ?d)"
    by (simp_all add: wf_db_def)
  have id: "mcq_id (fst (addMCQ q opts ci u now f)) = nextId ?d"
    by (simp add: fst_addMCQ)
  from b have b': "list_all (\<lambda>m. 0 < mcq_id m \<and> mcq_id m < nextId ?d + 1) (mcqs ?d)"
    by (induction "mcqs ?d") (auto simp: list_all_iff)
  from b have lt: "\<forall>x\<in>set (mcqs ?d). mcq_id x < nextId ?d"
    by (simp add: list_all_iff)
  show ?thesis
    unfolding wf_db_def mcqs_addMCQ nextId_addMCQ[OF n safe]
    using n s b' lt by (simp add: sorted_wrt_append id)
qed

text \<open>So does a sequence of them that ends with \<open>nextId\<close> at \<open>2^53\<close> at most.\<close>

lemma append_all_spec:
  "wf_db (loadDB f) \<Longrightarrow> nextId (loadDB f) + int (length as) \<le> 9007199254740992 \<Longrightarrow>
   wf_db (loadDB (snd (append_all as f))) \<and>
   mcqs (loadDB (snd (append_all as f))) = mcqs (loadDB f) @ fst (append_all as f)"
proof (induction as arbitrary: f)
  case Nil
  then show ?case by simp
next
  case (Cons a as)
  obtain q opts ci u now where a: "a = (q, opts, ci, u, now)" by (cases a) auto
  let ?f1 = "snd (addMCQ q opts ci u now f)"
  from Cons.prems have n: "0 < nextId (loadDB f)" and safe: "nextId (loadDB f) < 9007199254740992"
    by (simp_all add: wf_db_def)
  have wf1: "wf_db (loadDB ?f1)" using Cons.prems(1) safe by (rule wf_addMCQ)
  have "nextId (loadDB ?f1) + int (length as) \<le> 9007199254740992"
    using Cons.prems(2) by (simp add: nextId_addMCQ[OF n safe])
  from Cons.IH[OF wf1 this] show ?case
    by (simp add: a split_beta Let_def mcqs_addMCQ)
qed

lemma find_split:
  "find P xs = Some m \<Longrightarrow> \<exists>pre post. xs = pre @ m # post \<and> P m \<and> (\<forall>x\<in>set pre. \<not> P x)"
proof (induction xs)
  case Nil
  then show ?case by simp
next
  case (Cons x xs)
  show ?case
  proof (cases "P x")
    case True
    with Cons.prems have "x = m" by simp
    with True have "x # xs = [] @ m # xs \<and> P m \<and> (\<forall>y\<in>set []. \<not> P y)" by simp
    then show ?thesis by blast
  next
    case False
    with Cons.prems have "find P xs = Some m" by simp
    from Cons.IH[OF this] obtain pre post
      where "xs = pre @ m # post" "P m" "\<forall>y\<in>set pre. \<not> P y" by blast
    with False have "x # xs = (x # pre) @ m # post \<and> P m \<and> (\<forall>y\<in>set (x # pre). \<not> P y)"
      by simp
    then show ?thesis by blast
  qed
qed

lemma find_None_all: "find P xs = None \<longleftrightarrow> (\<forall>x\<in>set xs. \<not> P x)"
  by (induction xs) auto

lemma findIndex_None: "findIndex P xs = None \<longleftrightarrow> (\<forall>x\<in>set xs. \<not> P x)"
  by (induction xs) auto

lemma findIndex_first:
  "(\<forall>x\<in>set pre. \<not> P x) \<Longrightarrow> P m \<Longrightarrow> findIndex P (pre @ m # post) = Some (length pre)"
  by (induction pre) auto

lemma findIndex_Some:
  "findIndex P xs = Some k \<Longrightarrow> k < length xs \<and> P (xs ! k)"
proof (induction xs arbitrary: k)
  case Nil
  then show ?case by simp
next
  case (Cons x xs)
  then show ?case by (cases "P x") (auto split: if_splits)
qed

lemma str_or_null_idem: "str_or_null (str_or_null p) = str_or_null p"
  by (simp add: str_or_null_def split: option.splits)

lemma mcqs_markMCQPosted:
  "mcqs (loadDB (markMCQPosted i p now f)) =
     (case findIndex (\<lambda>m. mcq_id m = i) (mcqs (loadDB f)) of
        None \<Rightarrow> mcqs (loadDB f)
      | Some k \<Rightarrow> (mcqs (loadDB f))[k := (mcqs (loadDB f) ! k)\<lparr>posted_at := Some now,
                                     telegram_poll_id := str_or_null p\<rparr>])"
  by (simp add: markMCQPosted_def Let_def mcqs_load_save split: option.splits)

lemma ids_markMCQPosted:
  "map mcq_id (mcqs (loadDB (markMCQPosted i p now f))) = map mcq_id (mcqs (loadDB f))"
proof (cases "findIndex (\<lambda>m. mcq_id m = i) (mcqs (loadDB f))")
  case None
  then show ?thesis by (simp add: mcqs_markMCQPosted)
next
  case (Some k)
  from findIndex_Some[OF Some] have "k < length (mcqs (loadDB f))" by simp
  then show ?thesis
    by (simp add: mcqs_markMCQPosted Some map_update list_update_same_conv)
qed

lemma nextId_markMCQPosted:
  "0 < nextId (loadDB f) \<Longrightarrow> nextId (loadDB (markMCQPosted i p now f)) = nextId (loadDB f)"
  by (simp add: markMCQPosted_def Let_def nextId_load_save split: option.splits)

lemma wf_markMCQPosted:
  assumes "wf_db (loadDB f)"
  shows "wf_db (loadDB (markMCQPosted i p now f))"
proof -
  from assms have n: "0 < nextId (loadDB f)" by (simp add: wf_db_def)
  have "list_all (\<lambda>m. 0 < mcq_id m \<and> mcq_id m < nextId (loadDB f)) xs
        \<longleftrightarrow> list_all (\<lambda>k. 0 < k \<and> k < nextId (loadDB f)) (map mcq_id xs)" for xs :: "mcq list"
    by (simp add: list_all_iff)
  with assms show ?thesis
    by (simp add: wf_db_def nextId_markMCQPosted[OF n] ids_markMCQPosted)
qed

lemma wf_ids_distinct: "wf_db d \<Longrightarrow> distinct (map mcq_id (mcqs d))"
  by (simp add: wf_db_def strict_sorted_iff)

lemma mark_head:
  assumes d: "distinct (map mcq_id (mcqs (loadDB f)))"
    and s: "mcqs (loadDB f) = pre @ m # post"
  shows "mcqs (loadDB (markMCQPosted (mcq_id m) p now f)) =
           pre @ m\<lparr>posted_at := Some now, telegram_poll_id := str_or_null p\<rparr> # post"
proof -
  from d s have "mcq_id m \<notin> mcq_id ` set pre" by simp
  then have "\<forall>x\<in>set pre. mcq_id x \<noteq> mcq_id m" by (metis imageI)
  then have "findIndex (\<lambda>x. mcq_id x = mcq_id m) (pre @ m # post) = Some (length pre)"
    by (intro findIndex_first) auto
  then show ?thesis by (simp add: mcqs_markMCQPosted s)
qed

section \<open>Facts about the scheduler\<close>

lemma fst_getNext: "fst (getNextUnpostedMCQ f) = find (\<lambda>m. posted_at m = None) (mcqs (loadDB f))"
  by (simp add: getNextUnpostedMCQ_def)

lemma count_zero_iff_none:
  "fst (countPendingMCQs f) = 0 \<longleftrightarrow> fst (getNextUnpostedMCQ f) = None"
  by (simp add: countPendingMCQs_def fst_getNext find_None_all filter_empty_conv)

lemma tick_empty:
  "fst (getNextUnpostedMCQ (dbfile w)) = None \<Longrightarrow> postNextMCQIfAny r now w = pauseScheduler w"
  by (simp add: postNextMCQIfAny_def)

lemma tick_failed:
  "fst (getNextUnpostedMCQ (dbfile w)) = Some m \<Longrightarrow>
   postNextMCQIfAny Failed now w =
     w\<lparr>calls := calls w @ [SendPoll (question m) (options m) (correct_index m)]\<rparr>"
  by (simp add: postNextMCQIfAny_def)

lemma tick_delivered:
  "fst (getNextUnpostedMCQ (dbfile w)) = Some m \<Longrightarrow>
   postNextMCQIfAny (Delivered pid) now w =
     w\<lparr>dbfile := markMCQPosted (mcq_id m) (str_or_null pid) now (dbfile w),
       calls := calls w @ [SendPoll (question m) (options m) (correct_index m),
                           MarkPosted (mcq_id m) (str_or_null pid)]\<rparr>"
  by (simp add: postNextMCQIfAny_def Let_def)

lemma sched_inv_boot: "sched_inv (boot f)"
  by (simp add: sched_inv_def boot_def)

lemma sched_inv_pause: "sched_inv w \<Longrightarrow> sched_inv (pauseScheduler w)"
  by (auto simp: sched_inv_def pauseScheduler_def clearInterval_def Let_def split: option.splits)

lemma pause_paused:
  "schedulerPaused (pauseScheduler w) \<and> schedulerHandle (pauseScheduler w) = None"
  by (simp add: pauseScheduler_def Let_def)

lemma sched_inv_tick: "sched_inv w \<Longrightarrow> sched_inv (postNextMCQIfAny r now w)"
proof (cases "fst (getNextUnpostedMCQ (dbfile w))")
  case None
  assume "sched_inv w"
  then show ?thesis by (simp add: tick_empty[OF None] sched_inv_pause)
next
  case (Some m)
  assume "sched_inv w"
  then show ?thesis
    by (cases r) (simp_all add: tick_failed[OF Some] tick_delivered[OF Some] sched_inv_def)
qed

lemma start_fresh:
  "schedulerHandle w = None \<Longrightarrow>
   startScheduler r now w =
     postNextMCQIfAny r now
       (w\<lparr>schedulerPaused := False, timers := timers w @ [timerSeq w],
          timerSeq := timerSeq w + 1, schedulerHandle := Some (timerSeq w)\<rparr>)"
  by (simp add: startScheduler_def setInterval_def Let_def)

lemma sched_inv_start: "sched_inv w \<Longrightarrow> sched_inv (startScheduler r now w)"
proof (cases "schedulerHandle w")
  case None
  assume "sched_inv w"
  with None have "sched_inv (w\<lparr>schedulerPaused := False, timers := timers w @ [timerSeq w],
          timerSeq := timerSeq w + 1, schedulerHandle := Some (timerSeq w)\<rparr>)"
    by (simp add: sched_inv_def)
  then show ?thesis by (simp add: start_fresh[OF None] sched_inv_tick)
next
  case (Some h)
  assume "sched_inv w"
  with Some show ?thesis by (simp add: startScheduler_def sched_inv_def)
qed

lemma sched_inv_init: "sched_inv w \<Longrightarrow> sched_inv (init r now w)"
  by (simp add: init_def sched_inv_start)

lemma sched_inv_dbfile: "sched_inv (w\<lparr>dbfile := f\<rparr>) = sched_inv w"
  by (simp add: sched_inv_def)

text \<open>The two ways out of the handler once the tokens are known.\<close>

lemma upload_parts_cases:
  obtains (rejected) e where "e \<in> {NeedParts, InvalidIndex, OptionsRange}"
      and "upload_parts toNumber parts sender t r now w = ([e], w)"
  | (accepted) i where "3 \<le> length parts" and "toNumber (last parts) = Integer i"
      and "0 \<le> i" and "i < int (length (tl (butlast parts)))"
      and "2 \<le> length (tl (butlast parts))" and "length (tl (butlast parts)) \<le> 10"
      and "upload_parts toNumber parts sender t r now w =
            (let entry = fst (addMCQ (hd (butlast parts)) (tl (butlast parts)) i (Some sender) t (dbfile w));
                 w1 = w\<lparr>dbfile := snd (addMCQ (hd (butlast parts)) (tl (butlast parts)) i (Some sender) t (dbfile w))\<rparr>
             in if schedulerPaused w
                then ([Queued (mcq_id entry), Restarted], startScheduler r now w1)
                else ([Queued (mcq_id entry)], w1))"
proof (cases "length parts < 3")
  case True
  then have "upload_parts toNumber parts sender t r now w = ([NeedParts], w)"
    by (simp add: upload_parts_def)
  then show ?thesis by (intro rejected[of NeedParts]) simp_all
next
  case long: False
  show ?thesis
  proof (cases "toNumber (last parts)")
    case NonInteger
    with long have "upload_parts toNumber parts sender t r now w = ([InvalidIndex], w)"
      by (simp add: upload_parts_def Let_def)
    then show ?thesis by (intro rejected[of InvalidIndex]) simp_all
  next
    case (Integer i)
    show ?thesis
    proof (cases "i < 0 \<or> i \<ge> int (length (tl (butlast parts)))")
      case True
      with long Integer have "upload_parts toNumber parts sender t r now w = ([InvalidIndex], w)"
        by (simp add: upload_parts_def Let_def)
      then show ?thesis by (intro rejected[of InvalidIndex]) simp_all
    next
      case inrange: False
      show ?thesis
      proof (cases "length (tl (butlast parts)) < 2 \<or> length (tl (butlast parts)) > 10")
        case True
        with long Integer inrange
        have "upload_parts toNumber parts sender t r now w = ([OptionsRange], w)"
          by (simp add: upload_parts_def Let_def)
        then show ?thesis by (intro rejected[of OptionsRange]) simp_all
      next
        case False
        with long Integer inrange show ?thesis
          by (intro accepted[of i]) (simp_all add: upload_parts_def Let_def split_beta)
      qed
    qed
  qed
qed

lemma upload_cases:
  obtains (rejected) e where "e \<in> {PrivateOnly, Usage, NeedParts, InvalidIndex, OptionsRange}"
      and "upload toNumber isPrivate msg sender t r now w = ([e], w)"
  | (accepted) parts i where "isPrivate"
      and "js_trim (replace_first ''/upload'' [] msg) \<noteq> []"
      and "parts = tokens split_bars (js_trim (replace_first ''/upload'' [] msg))"
      and "3 \<le> length parts" and "toNumber (last parts) = Integer i"
      and "0 \<le> i" and "i < int (length (tl (butlast parts)))"
      and "2 \<le> length (tl (butlast parts))" and "length (tl (butlast parts)) \<le> 10"
      and "upload toNumber isPrivate msg sender t r now w =
            (let entry = fst (addMCQ (hd (butlast parts)) (tl (butlast parts)) i (Some sender) t (dbfile w));
                 w1 = w\<lparr>dbfile := snd (addMCQ (hd (butlast parts)) (tl (butlast parts)) i (Some sender) t (dbfile w))\<rparr>
             in if schedulerPaused w
                then ([Queued (mcq_id entry), Restarted], startScheduler r now w1)
                else ([Queued (mcq_id entry)], w1))"
proof (cases "isPrivate")
  case False
  then have "upload toNumber isPrivate msg sender t r now w = ([PrivateOnly], w)"
    by (simp add: upload_def)
  then show ?thesis by (intro rejected[of PrivateOnly]) simp_all
next
  case priv: True
  let ?payload = "js_trim (replace_first ''/upload'' [] msg)"
  show ?thesis
  proof (cases "?payload = []")
    case True
    with priv have "upload toNumber isPrivate msg sender t r now w = ([Usage], w)"
      by (simp add: upload_def)
    then show ?thesis by (intro rejected[of Usage]) simp_all
  next
    case False
    with priv have u: "upload toNumber isPrivate msg sender t r now w =
        upload_parts toNumber (tokens split_bars ?payload) sender t r now w"
      by (simp add: upload_def Let_def)
    note rej = rejected and acc = accepted
    show ?thesis
    proof (cases rule: upload_parts_cases[of toNumber "tokens split_bars ?payload" sender t r now w])
      case (rejected e)
      then show ?thesis using u by (intro rej[of e]) auto
    next
      case (accepted i)
      then show ?thesis using u priv False
        by (intro acc[of "tokens split_bars ?payload" i]) simp_all
    qed
  qed
qed

section \<open>What a step does to the file\<close>

lemma dbfile_pause: "dbfile (pauseScheduler w) = dbfile w"
  by (simp add: pauseScheduler_def clearInterval_def Let_def split: option.splits)

lemma tick_file:
  assumes "P (dbfile w)" and "\<And>i p. P (markMCQPosted i p now (dbfile w))"
  shows "P (dbfile (postNextMCQIfAny r now w))"
proof (cases "fst (getNextUnpostedMCQ (dbfile w))")
  case None
  with assms(1) show ?thesis by (simp add: tick_empty dbfile_pause)
next
  case (Some m)
  with assms show ?thesis by (cases r) (simp_all add: tick_failed tick_delivered)
qed

lemma start_file:
  assumes "P (dbfile w)" and "\<And>i p. P (markMCQPosted i p now (dbfile w))"
  shows "P (dbfile (startScheduler r now w))"
proof (cases "schedulerHandle w")
  case None
  show ?thesis unfolding start_fresh[OF None]
    by (rule tick_file) (simp_all add: assms)
next
  case (Some h)
  with assms(1) show ?thesis by (simp add: startScheduler_def)
qed

lemma upload_file:
  assumes "P (dbfile w)"
    and "\<And>q opts i u t f. P f \<Longrightarrow> P (snd (addMCQ q opts i u t f))"
    and "\<And>i p f. P f \<Longrightarrow> P (markMCQPosted i p now f)"
  shows "P (dbfile (snd (upload toNumber isPrivate msg sender t r now w)))"
proof (cases rule: upload_cases[of toNumber isPrivate msg sender t r now w])
  case (rejected e)
  with assms(1) show ?thesis by simp
next
  case (accepted parts i)
  let ?f1 = "snd (addMCQ (hd (butlast parts)) (tl (butlast parts)) i (Some sender) t (dbfile w))"
  have f1: "P ?f1" using assms(1) by (rule assms(2))
  have "P (dbfile (startScheduler r now (w\<lparr>dbfile := ?f1\<rparr>)))"
    by (rule start_file) (simp_all add: f1 assms(3))
  with f1 show ?thesis by (simp add: accepted(10) Let_def)
qed

lemma step_file:
  assumes "P (dbfile w)"
    and "\<And>q opts i u t f. P f \<Longrightarrow> P (snd (addMCQ q opts i u t f))"
    and "\<And>i p t f. P f \<Longrightarrow> P (markMCQPosted i p t f)"
  shows "P (dbfile (step toNumber e w))"
proof (cases e)
  case (Upload isPrivate msg sender t r now)
  show ?thesis unfolding Upload step.simps
    by (rule upload_file) (simp_all add: assms)
next
  case (Tick r now)
  show ?thesis
  proof (cases "timers w = []")
    case True
    with assms(1) show ?thesis by (simp add: Tick)
  next
    case False
    have "P (dbfile (postNextMCQIfAny r now w))"
      by (rule tick_file) (simp_all add: assms)
    with False show ?thesis by (simp add: Tick)
  qed
qed

lemma run_file:
  assumes "P (dbfile w)"
    and "\<And>q opts i u t f. P f \<Longrightarrow> P (snd (addMCQ q opts i u t f))"
    and "\<And>i p t f. P f \<Longrightarrow> P (markMCQPosted i p t f)"
  shows "P (dbfile (run toNumber es w))"
  using assms(1)
proof (induction es arbitrary: w)
  case Nil
  then show ?case by simp
next
  case (Cons e es)
  have "P (dbfile (step toNumber e w))"
    by (rule step_file) (simp_all add: Cons.prems assms(2,3))
  from Cons.IH[OF this] show ?case by simp
qed

text \<open>The start-up block keeps the document well formed; every run keeps the scheduler's
  variables in step.\<close>

lemma wf_init: "wf_db (loadDB (dbfile w)) \<Longrightarrow> wf_db (loadDB (dbfile (init r now w)))"
  unfolding init_def
  by (cases "0 < fst (countPendingMCQs (dbfile w))")
     (simp_all add: start_file[where P = "\<lambda>f. wf_db (loadDB f)"] wf_markMCQPosted)

lemma wf_Unreadable: "wf_db (loadDB Unreadable)"
  by (simp add: wf_db_def loadDB_def)

lemma sched_inv_upload:
  assumes "sched_inv w"
  shows "sched_inv (snd (upload toNumber isPrivate msg sender t r now w))"
proof (cases rule: upload_cases[of toNumber isPrivate msg sender t r now w])
  case (rejected e)
  with assms show ?thesis by simp
next
  case (accepted parts i)
  with assms show ?thesis
    by (simp add: Let_def sched_inv_start sched_inv_dbfile)
qed

lemma sched_inv_step: "sched_inv w \<Longrightarrow> sched_inv (step toNumber e w)"
  by (cases e) (simp_all add: sched_inv_upload sched_inv_tick)

lemma sched_inv_run: "sched_inv w \<Longrightarrow> sched_inv (run toNumber es w)"
  by (induction es arbitrary: w) (simp_all add: sched_inv_step)

text \<open>The ids already in the document stay where they are, whatever happens next.\<close>

lemma ids_run:
  "take (length (mcqs (loadDB (dbfile w)))) (map mcq_id (mcqs (loadDB (dbfile (run toNumber es w))))) =
     map mcq_id (mcqs (loadDB (dbfile w)))"
proof -
  let ?ids = "map mcq_id (mcqs (loadDB (dbfile w)))"
  let ?P = "\<lambda>f. take (length ?ids) (map mcq_id (mcqs (loadDB f))) = ?ids \<and>
                 length ?ids \<le> length (mcqs (loadDB f))"
  have "?P (dbfile (run toNumber es w))"
  proof (rule run_file[where P = ?P])
    show "?P (dbfile w)" by simp
  next
    fix q opts i u t and f :: "mcq jsonfile"
    assume "?P f"
    then show "?P (snd (addMCQ q opts i u t f))" by (simp add: mcqs_addMCQ)
  next
    fix i p t and f :: "mcq jsonfile"
    assume "?P f"
    moreover have "length (mcqs (loadDB (markMCQPosted i p t f))) = length (mcqs (loadDB f))"
      using arg_cong[OF ids_markMCQPosted[of i p t f], of length] by simp
    ultimately show "?P (markMCQPosted i p t f)" by (simp add: ids_markMCQPosted)
  qed
  then show ?thesis by simp
qed

section \<open>Facts about delivery attempts\<close>

lemma next_split:
  "fst (getNextUnpostedMCQ f) = Some m \<Longrightarrow>
   \<exists>pre post. mcqs (loadDB f) = pre @ m # post \<and> posted_at m = None \<and>
              (\<forall>x\<in>set pre. posted_at x \<noteq> None)"
  unfolding fst_getNext by (drule find_split) simp

lemma count_split:
  "mcqs (loadDB f) = pre @ m # post \<Longrightarrow> \<forall>x\<in>set pre. posted_at x \<noteq> None \<Longrightarrow>
   fst (countPendingMCQs f) =
     (if posted_at m = None then 1 else 0) + length (filter (\<lambda>x. posted_at x = None) post)"
  by (simp add: countPendingMCQs_def filter_empty_conv[THEN iffD2])

lemma tick_delivered_mcqs:
  assumes wf: "wf_db (loadDB (dbfile w))"
    and nxt: "fst (getNextUnpostedMCQ (dbfile w)) = Some m"
    and s: "mcqs (loadDB (dbfile w)) = pre @ m # post"
  shows "mcqs (loadDB (dbfile (postNextMCQIfAny (Delivered pid) now w))) =
           pre @ m\<lparr>posted_at := Some now, telegram_poll_id := str_or_null pid\<rparr> # post"
  using mark_head[OF wf_ids_distinct[OF wf] s, of "str_or_null pid" now]
  by (simp add: tick_delivered[OF nxt] str_or_null_idem)

lemma tick_failed_next:
  "fst (getNextUnpostedMCQ (dbfile w)) = Some m \<Longrightarrow>
   dbfile (postNextMCQIfAny Failed now w) = dbfile w \<and>
   schedulerPaused (postNextMCQIfAny Failed now w) = schedulerPaused w \<and>
   schedulerHandle (postNextMCQIfAny Failed now w) = schedulerHandle w \<and>
   timers (postNextMCQIfAny Failed now w) = timers w"
  by (simp add: tick_failed)

lemma next_is_smallest:
  assumes wf: "wf_db (loadDB f)" and nxt: "fst (getNextUnpostedMCQ f) = Some r"
    and m: "m \<in> set (mcqs (loadDB f))" and pm: "posted_at m = None"
  shows "mcq_id r \<le> mcq_id m"
proof -
  from next_split[OF nxt] obtain pre post
    where s: "mcqs (loadDB f) = pre @ r # post"
      and pp: "\<forall>x\<in>set pre. posted_at x \<noteq> None" by blast
  from wf s have "sorted_wrt (<) (map mcq_id (pre @ r # post))" by (simp add: wf_db_def)
  then have "\<forall>x\<in>set post. mcq_id r < mcq_id x" by (simp add: sorted_wrt_append)
  moreover from m s pp pm have "m = r \<or> m \<in> set post" by auto
  ultimately show ?thesis by auto
qed

lemma same_id_same_record:
  assumes "distinct (map mcq_id xs)" and "a \<in> set xs" and "b \<in> set xs"
    and "mcq_id a = mcq_id b"
  shows "a = b"
  using assms by (meson distinct_map inj_on_eq_iff)

lemma id_one_is_next:
  assumes wf: "wf_db (loadDB f)" and a: "A \<in> set (mcqs (loadDB f))"
    and pa: "posted_at A = None" and ia: "mcq_id A = 1"
  shows "fst (getNextUnpostedMCQ f) = Some A"
proof (cases "fst (getNextUnpostedMCQ f)")
  case None
  then have "\<forall>x\<in>set (mcqs (loadDB f)). posted_at x \<noteq> None"
    by (simp add: fst_getNext find_None_all)
  with a pa show ?thesis by blast
next
  case (Some r)
  from next_split[OF Some] have r: "r \<in> set (mcqs (loadDB f))" by auto
  with wf have "0 < mcq_id r" by (simp add: wf_db_def list_all_iff)
  moreover from next_is_smallest[OF wf Some a pa] ia have "mcq_id r \<le> 1" by simp
  ultimately have "mcq_id r = mcq_id A" using ia by simp
  from same_id_same_record[OF wf_ids_distinct[OF wf] r a this] Some show ?thesis by simp
qed

lemma tick_first_call:
  "fst (getNextUnpostedMCQ (dbfile w)) = Some m \<Longrightarrow>
   take (Suc (length (calls w))) (calls (postNextMCQIfAny r now w)) =
     calls w @ [SendPoll (question m) (options m) (correct_index m)]"
  by (cases r) (simp_all add: tick_failed tick_delivered)

lemma legacy_head_smallest:
  assumes wf: "wf_db (loadDB g)" and nxt: "fst (getNextMCQ g) = Some r"
    and m: "m \<in> set (mcqs (loadDB g))"
  shows "mcq_id r \<le> mcq_id m"
proof -
  from nxt obtain post where s: "mcqs (loadDB g) = r # post"
    by (auto simp: getNextMCQ_def Let_def split: list.splits)
  from wf s have "\<forall>x\<in>set post. mcq_id r < mcq_id x" by (simp add: wf_db_def)
  with m s show ?thesis by auto
qed

text \<open>In the older variant a delivered record leaves the file, so what is stored is pending.\<close>

lemma legacy_delivered_is_removed:
  assumes wf: "wf_db (loadDB (dbfile w))" and nxt: "fst (getNextMCQ (dbfile w)) = Some m"
  shows "\<exists>w'. postNextQuestion (Delivered pid) w = Inr w' \<and>
              mcqs (loadDB (dbfile w')) = tl (mcqs (loadDB (dbfile w)))"
proof -
  from nxt obtain post where s: "mcqs (loadDB (dbfile w)) = m # post"
    by (auto simp: getNextMCQ_def Let_def split: list.splits)
  from wf s have "\<forall>x\<in>set post. mcq_id m < mcq_id x" by (simp add: wf_db_def)
  then have "filter (\<lambda>q. mcq_id q \<noteq> mcq_id m) post = post"
    by (auto simp: filter_id_conv)
  with s have "mcqs (loadDB (removeMCQ (mcq_id m) (dbfile w))) = post"
    by (simp add: removeMCQ_def Let_def mcqs_load_save)
  with s nxt show ?thesis by (simp add: postNextQuestion_def Let_def)
qed

section \<open>Facts about starting and pausing\<close>

lemma tick_keeps_running:
  "fst (getNextUnpostedMCQ (dbfile w)) = Some m \<Longrightarrow>
   schedulerPaused (postNextMCQIfAny r now w) = schedulerPaused w \<and>
   schedulerHandle (postNextMCQIfAny r now w) = schedulerHandle w \<and>
   timers (postNextMCQIfAny r now w) = timers w"
  by (cases r) (simp_all add: tick_failed tick_delivered)

lemma tick_pauses:
  assumes "sched_inv w" and "fst (countPendingMCQs (dbfile w)) = 0"
  shows "schedulerPaused (postNextMCQIfAny r now w) \<and>
         schedulerHandle (postNextMCQIfAny r now w) = None \<and>
         timers (postNextMCQIfAny r now w) = []"
proof -
  from assms(2) have "postNextMCQIfAny r now w = pauseScheduler w"
    by (simp add: count_zero_iff_none tick_empty)
  moreover from sched_inv_pause[OF assms(1)] have "timers (pauseScheduler w) = []"
    by (simp add: sched_inv_def pause_paused)
  ultimately show ?thesis by (simp add: pause_paused)
qed

lemma start_with_pending:
  assumes h: "schedulerHandle w = None" and nxt: "fst (getNextUnpostedMCQ (dbfile w)) = Some m"
  shows "\<not> schedulerPaused (startScheduler r now w) \<and>
         schedulerHandle (startScheduler r now w) = Some (timerSeq w) \<and>
         timers (startScheduler r now w) = timers w @ [timerSeq w] \<and>
         take (Suc (length (calls w))) (calls (startScheduler r now w)) =
           calls w @ [SendPoll (question m) (options m) (correct_index m)]"
proof -
  let ?w3 = "w\<lparr>schedulerPaused := False, timers := timers w @ [timerSeq w],
          timerSeq := timerSeq w + 1, schedulerHandle := Some (timerSeq w)\<rparr>"
  have n3: "fst (getNextUnpostedMCQ (dbfile ?w3)) = Some m" using nxt by simp
  from tick_keeps_running[OF n3, of r now] tick_first_call[OF n3, of r now]
  show ?thesis by (simp add: start_fresh[OF h])
qed

lemma init_boot_paused:
  "schedulerPaused (init r now (boot f)) \<longleftrightarrow> fst (countPendingMCQs f) = 0"
proof (cases "fst (getNextUnpostedMCQ f)")
  case None
  then have "fst (countPendingMCQs f) = 0" by (simp add: count_zero_iff_none)
  then show ?thesis by (simp add: init_def boot_def)
next
  case (Some m)
  then have c: "0 < fst (countPendingMCQs f)" using count_zero_iff_none[of f] by simp
  have "\<not> schedulerPaused (startScheduler r now (boot f))"
    using start_with_pending[of "boot f" m r now] Some by (simp add: boot_def)
  with c show ?thesis by (simp add: init_def boot_def)
qed

lemma init_boot_empty:
  "fst (countPendingMCQs f) = 0 \<Longrightarrow> init r now (boot f) = boot f"
  by (simp add: init_def boot_def)

lemma next_after_add:
  "\<exists>m. fst (getNextUnpostedMCQ (snd (addMCQ q opts ci u t f))) = Some m"
proof -
  have "fst (countPendingMCQs (snd (addMCQ q opts ci u t f))) \<noteq> 0"
    by (simp add: countPendingMCQs_def mcqs_addMCQ fst_addMCQ)
  then have "fst (getNextUnpostedMCQ (snd (addMCQ q opts ci u t f))) \<noteq> None"
    by (simp add: count_zero_iff_none)
  then show ?thesis by (cases "fst (getNextUnpostedMCQ (snd (addMCQ q opts ci u t f)))") simp_all
qed

lemma upload_while_paused:
  assumes inv: "sched_inv w" and p: "schedulerPaused w"
    and q: "Queued k \<in> set (fst (upload toNumber isPrivate msg sender t r now w))"
  shows "\<not> schedulerPaused (snd (upload toNumber isPrivate msg sender t r now w)) \<and>
         schedulerHandle (snd (upload toNumber isPrivate msg sender t r now w)) \<noteq> None \<and>
         timers (snd (upload toNumber isPrivate msg sender t r now w)) \<noteq> [] \<and>
         (\<exists>q opts ci. take (Suc (length (calls w)))
                         (calls (snd (upload toNumber isPrivate msg sender t r now w))) =
                       calls w @ [SendPoll q opts ci])"
proof (cases rule: upload_cases[of toNumber isPrivate msg sender t r now w])
  case (rejected e)
  with q show ?thesis by auto
next
  case (accepted parts i)
  let ?f1 = "snd (addMCQ (hd (butlast parts)) (tl (butlast parts)) i (Some sender) t (dbfile w))"
  let ?w1 = "w\<lparr>dbfile := ?f1\<rparr>"
  from inv p have h: "schedulerHandle ?w1 = None" by (simp add: sched_inv_def)
  from next_after_add obtain m where m: "fst (getNextUnpostedMCQ (dbfile ?w1)) = Some m"
    by fastforce
  from p have u: "snd (upload toNumber isPrivate msg sender t r now w) = startScheduler r now ?w1"
    by (simp add: accepted(10) Let_def)
  from start_with_pending[OF h m, of r now] show ?thesis unfolding u by auto
qed

lemma first_upload_delivered:
  assumes e: "mcqs (loadDB f) = []"
    and q: "Queued k \<in> set (fst (upload toNumber isPrivate msg sender t (Delivered pid) now (boot f)))"
  shows "\<not> schedulerPaused (snd (upload toNumber isPrivate msg sender t (Delivered pid) now (boot f))) \<and>
         sched_inv (snd (upload toNumber isPrivate msg sender t (Delivered pid) now (boot f))) \<and>
         fst (countPendingMCQs (dbfile (snd (upload toNumber isPrivate msg sender t (Delivered pid) now (boot f))))) = 0 \<and>
         (\<exists>x. mcqs (loadDB (dbfile (snd (upload toNumber isPrivate msg sender t (Delivered pid) now (boot f))))) = [x] \<and>
              mcq_id x = k \<and> posted_at x = Some now \<and> telegram_poll_id x = str_or_null pid)"
proof (cases rule: upload_cases[of toNumber isPrivate msg sender t "Delivered pid" now "boot f"])
  case (rejected e)
  with q show ?thesis by auto
next
  case (accepted parts i)
  let ?u = "snd (upload toNumber isPrivate msg sender t (Delivered pid) now (boot f))"
  let ?a = "addMCQ (hd (butlast parts)) (tl (butlast parts)) i (Some sender) t f"
  let ?w1 = "(boot f)\<lparr>dbfile := snd ?a\<rparr>"
  let ?x = "(fst ?a)\<lparr>posted_at := Some now, telegram_poll_id := str_or_null pid\<rparr>"
  have bp: "schedulerPaused (boot f)" "dbfile (boot f) = f" "schedulerHandle ?w1 = None"
    by (simp_all add: boot_def)
  from accepted(10) bp have u: "?u = startScheduler (Delivered pid) now ?w1"
    and k: "k = mcq_id (fst ?a)" using q by (auto simp: Let_def)
  have ms: "mcqs (loadDB (snd ?a)) = [] @ fst ?a # []" by (simp add: mcqs_addMCQ e)
  have nxt: "fst (getNextUnpostedMCQ (dbfile ?w1)) = Some (fst ?a)"
    by (simp add: fst_getNext mcqs_addMCQ e fst_addMCQ)
  from start_with_pending[OF bp(3) nxt, of "Delivered pid" now]
  have run: "\<not> schedulerPaused ?u" by (simp add: u)
  have inv: "sched_inv ?u" by (rule sched_inv_upload[OF sched_inv_boot])
  have "dbfile ?u = markMCQPosted (mcq_id (fst ?a)) (str_or_null pid) now (snd ?a)"
    unfolding u start_fresh[OF bp(3)] using nxt by (simp add: tick_delivered)
  moreover have "distinct (map mcq_id (mcqs (loadDB (snd ?a))))" by (simp add: ms)
  ultimately have after: "mcqs (loadDB (dbfile ?u)) = [?x]"
    using mark_head[OF _ ms, of "str_or_null pid" now] by (simp add: str_or_null_idem)
  then have "fst (countPendingMCQs (dbfile ?u)) = 0" by (simp add: countPendingMCQs_def)
  moreover have "mcq_id ?x = k \<and> posted_at ?x = Some now \<and> telegram_poll_id ?x = str_or_null pid"
    by (simp add: k)
  ultimately show ?thesis using run inv after by blast
qed

section \<open>Facts about marking a record\<close>

lemma findIndex_split:
  "findIndex P xs = Some k \<Longrightarrow>
   \<exists>pre m post. xs = pre @ m # post \<and> P m \<and> (\<forall>x\<in>set pre. \<not> P x) \<and> k = length pre"
proof (induction xs arbitrary: k)
  case Nil
  then show ?case by simp
next
  case (Cons x xs)
  show ?case
  proof (cases "P x")
    case True
    with Cons.prems have "k = 0" by simp
    with True have "x # xs = [] @ x # xs \<and> P x \<and> (\<forall>y\<in>set []. \<not> P y) \<and> k = length []"
      by simp
    then show ?thesis by blast
  next
    case False
    with Cons.prems obtain j where j: "findIndex P xs = Some j" and k: "k = Suc j"
      by (auto split: if_splits)
    from Cons.IH[OF j] obtain pre m post
      where "xs = pre @ m # post" "P m" "\<forall>y\<in>set pre. \<not> P y" "j = length pre" by blast
    with False k have "x # xs = (x # pre) @ m # post \<and> P m \<and> (\<forall>y\<in>set (x # pre). \<not> P y) \<and>
        k = length (x # pre)"
      by simp
    then show ?thesis by blast
  qed
qed

lemma mark_first_with_id:
  assumes s: "mcqs (loadDB f) = pre @ m # post" and i: "mcq_id m = i"
    and n: "\<forall>x\<in>set pre. mcq_id x \<noteq> i"
  shows "mcqs (loadDB (markMCQPosted i p t f)) =
           pre @ m\<lparr>posted_at := Some t, telegram_poll_id := str_or_null p\<rparr> # post"
proof -
  from n i have "findIndex (\<lambda>x. mcq_id x = i) (pre @ m # post) = Some (length pre)"
    by (intro findIndex_first) auto
  then show ?thesis by (simp add: mcqs_markMCQPosted s)
qed

section \<open>Facts about the upload handlers\<close>

lemma tokens_nonempty: "p \<in> set (tokens split s) \<Longrightarrow> p \<noteq> []"
  by (simp add: tokens_def)

lemma question_token:
  assumes "3 \<le> length parts"
  shows "hd (butlast parts) \<in> set parts"
proof -
  from assms have "butlast parts \<noteq> []" by (cases parts) auto
  then have "hd (butlast parts) \<in> set (butlast parts)" by simp
  then show ?thesis by (rule in_set_butlastD)
qed

lemma mark_keeps_content:
  "map (\<lambda>x. (mcq_id x, question x, options x, correct_index x)) (mcqs (loadDB (markMCQPosted i p t f))) =
   map (\<lambda>x. (mcq_id x, question x, options x, correct_index x)) (mcqs (loadDB f))"
proof (cases "findIndex (\<lambda>m. mcq_id m = i) (mcqs (loadDB f))")
  case None
  then show ?thesis by (simp add: mcqs_markMCQPosted)
next
  case (Some k)
  from findIndex_Some[OF Some] have "k < length (mcqs (loadDB f))" by simp
  then show ?thesis
    by (simp add: mcqs_markMCQPosted Some map_update list_update_same_conv)
qed

text \<open>The handler of the newest variant turns away whatever fails one of its tests.\<close>

lemma upload_parts_rejects:
  assumes "\<not> (3 \<le> length parts \<and>
              (\<exists>i. toNumber (last parts) = Integer i \<and> 0 \<le> i \<and> i < int (length (tl (butlast parts)))) \<and>
              2 \<le> length (tl (butlast parts)) \<and> length (tl (butlast parts)) \<le> 10)"
  shows "\<exists>e\<in>{NeedParts, InvalidIndex, OptionsRange}.
           upload_parts toNumber parts sender t r now w = ([e], w)"
proof (cases rule: upload_parts_cases[of toNumber parts sender t r now w])
  case (rejected e)
  then show ?thesis by blast
next
  case (accepted i)
  with assms show ?thesis by blast
qed

text \<open>What it lets through is stored as a record that meets every test.\<close>

lemma upload_queues_valid_record:
  assumes q: "Queued k \<in> set (fst (upload toNumber isPrivate msg sender t r now w))"
  shows "\<exists>x\<in>set (mcqs (loadDB (dbfile (snd (upload toNumber isPrivate msg sender t r now w))))).
           mcq_id x = k \<and> question x \<noteq> [] \<and> 2 \<le> length (options x) \<and> length (options x) \<le> 10 \<and>
           0 \<le> correct_index x \<and> correct_index x < int (length (options x))"
proof (cases rule: upload_cases[of toNumber isPrivate msg sender t r now w])
  case (rejected e)
  with q show ?thesis by auto
next
  case (accepted parts i)
  let ?core = "\<lambda>x::mcq. (mcq_id x, question x, options x, correct_index x)"
  let ?a = "addMCQ (hd (butlast parts)) (tl (butlast parts)) i (Some sender) t (dbfile w)"
  let ?w1 = "w\<lparr>dbfile := snd ?a\<rparr>"
  let ?u = "snd (upload toNumber isPrivate msg sender t r now w)"
  from accepted(10) q have k: "k = mcq_id (fst ?a)" by (auto simp: Let_def split: if_splits)
  have "hd (butlast parts) \<in> set parts" by (rule question_token[OF accepted(4)])
  then have qn: "hd (butlast parts) \<noteq> []" unfolding accepted(3) by (rule tokens_nonempty)
  have keep: "map ?core (mcqs (loadDB (dbfile ?u))) = map ?core (mcqs (loadDB (snd ?a)))"
  proof (cases "schedulerPaused w")
    case True
    then have u: "?u = startScheduler r now ?w1" by (simp add: accepted(10) Let_def)
    show ?thesis unfolding u
      by (rule start_file[where P = "\<lambda>g. map ?core (mcqs (loadDB g)) = map ?core (mcqs (loadDB (snd ?a)))"])
         (simp_all add: mark_keeps_content)
  next
    case False
    then show ?thesis by (simp add: accepted(10) Let_def)
  qed
  have "fst ?a \<in> set (mcqs (loadDB (snd ?a)))" by (simp add: mcqs_addMCQ)
  then have "?core (fst ?a) \<in> set (map ?core (mcqs (loadDB (snd ?a))))" by (simp only: set_map) (rule imageI)
  with keep have "?core (fst ?a) \<in> set (map ?core (mcqs (loadDB (dbfile ?u))))" by simp
  then obtain x where x: "x \<in> set (mcqs (loadDB (dbfile ?u)))" and c: "?core x = ?core (fst ?a)"
    by auto
  from c have "mcq_id x = k \<and> question x = hd (butlast parts) \<and> options x = tl (butlast parts) \<and>
      correct_index x = i"
    by (simp add: k fst_addMCQ)
  with x qn accepted(6,7,8,9) show ?thesis by auto
qed

lemma upload_rejected_unchanged:
  assumes "\<forall>k. Queued k \<notin> set (fst (upload toNumber isPrivate msg sender t r now w))"
  shows "snd (upload toNumber isPrivate msg sender t r now w) = w"
proof (cases rule: upload_cases[of toNumber isPrivate msg sender t r now w])
  case (rejected e)
  then show ?thesis by simp
next
  case (accepted parts i)
  with assms show ?thesis by (auto simp: Let_def split: if_splits)
qed

section \<open>The claims\<close>

subsection \<open>The next pending record\<close>

text \<open>
  C1. \<open>getNextUnpostedMCQ\<close> leaves the file as it is; it returns null exactly when no
  record has a null \<open>posted_at\<close>; a record it returns is pending and every record before
  it in the array is posted (the earliest pending one by insertion order). In a
  well-formed document that record has the smallest id among the pending ones, and when
  records \<open>A\<close> with id 1 and \<open>B\<close> with id 2 are both pending it is \<open>A\<close>: the first call a
  delivery attempt makes is \<open>sendPoll\<close> with the fields of \<open>A\<close>. In the older variant,
  where every stored record is pending, \<open>getNextMCQ\<close> leaves the file as it is, returns
  null exactly when the array is empty, and otherwise returns the first record of the
  array, which in a well-formed document has the smallest id.
\<close>

theorem next_pending_is_oldest:
  "snd (getNextUnpostedMCQ f) = f \<and>
   (fst (getNextUnpostedMCQ f) = None \<longleftrightarrow> (\<forall>m\<in>set (mcqs (loadDB f)). posted_at m \<noteq> None)) \<and>
   (\<forall>r. fst (getNextUnpostedMCQ f) = Some r \<longrightarrow>
      (\<exists>pre post. mcqs (loadDB f) = pre @ r # post \<and> posted_at r = None \<and>
                  (\<forall>x\<in>set pre. posted_at x \<noteq> None))) \<and>
   (wf_db (loadDB f) \<longrightarrow>
      (\<forall>r. fst (getNextUnpostedMCQ f) = Some r \<longrightarrow>
         (\<forall>m\<in>set (mcqs (loadDB f)). posted_at m = None \<longrightarrow> mcq_id r \<le> mcq_id m))) \<and>
   (wf_db (loadDB f) \<and> A \<in> set (mcqs (loadDB f)) \<and> B \<in> set (mcqs (loadDB f)) \<and>
    posted_at A = None \<and> posted_at B = None \<and> mcq_id A = 1 \<and> mcq_id B = 2 \<longrightarrow>
      fst (getNextUnpostedMCQ f) = Some A \<and>
      take (Suc (length (calls (w\<lparr>dbfile := f\<rparr>))))
           (calls (postNextMCQIfAny r now (w\<lparr>dbfile := f\<rparr>))) =
        calls w @ [SendPoll (question A) (options A) (correct_index A)]) \<and>
   snd (getNextMCQ g) = g \<and>
   (fst (getNextMCQ g) = None \<longleftrightarrow> mcqs (loadDB g) = []) \<and>
   (\<forall>r. fst (getNextMCQ g) = Some r \<longrightarrow> (\<exists>post. mcqs (loadDB g) = r # post)) \<and>
   (wf_db (loadDB g) \<longrightarrow>
      (\<forall>r. fst (getNextMCQ g) = Some r \<longrightarrow> (\<forall>m\<in>set (mcqs (loadDB g)). mcq_id r \<le> mcq_id m)))"
proof -
  have c1: "snd (getNextUnpostedMCQ f) = f" by (simp add: getNextUnpostedMCQ_def)
  have c2: "fst (getNextUnpostedMCQ f) = None \<longleftrightarrow> (\<forall>m\<in>set (mcqs (loadDB f)). posted_at m \<noteq> None)"
    by (simp add: fst_getNext find_None_all)
  have c3: "\<forall>r. fst (getNextUnpostedMCQ f) = Some r \<longrightarrow>
      (\<exists>pre post. mcqs (loadDB f) = pre @ r # post \<and> posted_at r = None \<and>
                  (\<forall>x\<in>set pre. posted_at x \<noteq> None))"
    using next_split by blast
  have c4: "wf_db (loadDB f) \<longrightarrow>
      (\<forall>r. fst (getNextUnpostedMCQ f) = Some r \<longrightarrow>
         (\<forall>m\<in>set (mcqs (loadDB f)). posted_at m = None \<longrightarrow> mcq_id r \<le> mcq_id m))"
    using next_is_smallest by blast
  have c5: "fst (getNextUnpostedMCQ f) = Some A \<and>
      take (Suc (length (calls (w\<lparr>dbfile := f\<rparr>))))
           (calls (postNextMCQIfAny r now (w\<lparr>dbfile := f\<rparr>))) =
        calls w @ [SendPoll (question A) (options A) (correct_index A)]"
    if "wf_db (loadDB f)" "A \<in> set (mcqs (loadDB f))" "posted_at A = None" "mcq_id A = 1"
  proof -
    from id_one_is_next[OF that] have n: "fst (getNextUnpostedMCQ f) = Some A" .
    then have "fst (getNextUnpostedMCQ (dbfile (w\<lparr>dbfile := f\<rparr>))) = Some A" by simp
    from tick_first_call[OF this, of r now] n show ?thesis by simp
  qed
  have c6: "snd (getNextMCQ g) = g"
    by (simp add: getNextMCQ_def Let_def split: list.splits)
  have c7: "fst (getNextMCQ g) = None \<longleftrightarrow> mcqs (loadDB g) = []"
    by (simp add: getNextMCQ_def Let_def split: list.splits)
  have c8: "\<forall>r. fst (getNextMCQ g) = Some r \<longrightarrow> (\<exists>post. mcqs (loadDB g) = r # post)"
    by (simp add: getNextMCQ_def Let_def split: list.splits)
  have c9: "wf_db (loadDB g) \<longrightarrow>
      (\<forall>r. fst (getNextMCQ g) = Some r \<longrightarrow> (\<forall>m\<in>set (mcqs (loadDB g)). mcq_id r \<le> mcq_id m))"
    using legacy_head_smallest by blast
  from c1 c2 c3 c4 c5 c6 c7 c8 c9 show ?thesis by blast
qed

theorem next_pending_is_oldest_witness:
  "wf_db (loadDB (Json (Some 3) (Some [sample_mcq 1 None, sample_mcq 2 None]))) \<and>
   sample_mcq 1 None \<in> set (mcqs (loadDB (Json (Some 3) (Some [sample_mcq 1 None, sample_mcq 2 None])))) \<and>
   sample_mcq 2 None \<in> set (mcqs (loadDB (Json (Some 3) (Some [sample_mcq 1 None, sample_mcq 2 None])))) \<and>
   fst (getNextUnpostedMCQ (Json (Some 3) (Some [sample_mcq 1 None, sample_mcq 2 None]))) =
     Some (sample_mcq 1 None) \<and>
   take (Suc 0) (calls (postNextMCQIfAny Failed 20
           (boot (Json (Some 3) (Some [sample_mcq 1 None, sample_mcq 2 None]))))) =
     [SendPoll ''2+2=?'' [''3'', ''4'', ''5''] 1] \<and>
   wf_db (loadDB (Json (Some 3) (Some [sample_legacy 1, sample_legacy 2]))) \<and>
   fst (getNextMCQ (Json (Some 3) (Some [sample_legacy 1, sample_legacy 2]))) = Some (sample_legacy 1)"
proof -
  let ?f = "Json (Some 3) (Some [sample_mcq 1 None, sample_mcq 2 None])"
  let ?g = "Json (Some 3) (Some [sample_legacy 1, sample_legacy 2])"
  have h1: "wf_db (loadDB ?f)" by (simp add: wf_db_def loadDB_def sample_mcq_def)
  have h2: "sample_mcq 1 None \<in> set (mcqs (loadDB ?f))" by (simp add: loadDB_def)
  have h3: "sample_mcq 2 None \<in> set (mcqs (loadDB ?f))" by (simp add: loadDB_def)
  have h4: "posted_at (sample_mcq 1 None) = None \<and> posted_at (sample_mcq 2 None) = None \<and>
            mcq_id (sample_mcq 1 None) = 1 \<and> mcq_id (sample_mcq 2 None) = 2"
    by (simp add: sample_mcq_def)
  have h5: "wf_db (loadDB ?g)" by (simp add: wf_db_def loadDB_def sample_legacy_def)
  have h6: "fst (getNextMCQ ?g) = Some (sample_legacy 1)"
    by (simp add: getNextMCQ_def loadDB_def)
  note t = next_pending_is_oldest[of ?f "sample_mcq 1 None" "sample_mcq 2 None" "boot ?f" Failed 20 ?g]
  from t h1 h2 h3 h4 have a: "fst (getNextUnpostedMCQ ?f) = Some (sample_mcq 1 None)" by blast
  from t h1 h2 h3 h4 have "take (Suc (length (calls ((boot ?f)\<lparr>dbfile := ?f\<rparr>))))
           (calls (postNextMCQIfAny Failed 20 ((boot ?f)\<lparr>dbfile := ?f\<rparr>))) =
        calls (boot ?f) @ [SendPoll (question (sample_mcq 1 None)) (options (sample_mcq 1 None))
                             (correct_index (sample_mcq 1 None))]"
    by blast
  then have b: "take (Suc 0) (calls (postNextMCQIfAny Failed 20 (boot ?f))) =
     [SendPoll ''2+2=?'' [''3'', ''4'', ''5''] 1]"
    by (simp add: boot_def sample_mcq_def)
  from h1 h2 h3 a b h5 h6 show ?thesis by blast
qed

subsection \<open>Marking a record twice\<close>

text \<open>
  C2, as the code has it. For an id that is in the document, \<open>markMCQPosted\<close> assigns
  both fields of the first record with that id on every call: after two calls
  \<open>posted_at\<close> is the clock reading of the second call and \<open>telegram_poll_id\<close> is the
  second call's poll id (null when that is null or empty), whatever the first call
  stored, and every other record is as it was. \<open>posted_at\<close> is never set back to null.
\<close>

theorem mark_posted_twice_keeps_second:
  "i \<in> set (map mcq_id (mcqs (loadDB f))) \<Longrightarrow>
     (\<exists>pre m post.
        mcqs (loadDB f) = pre @ m # post \<and> mcq_id m = i \<and> (\<forall>x\<in>set pre. mcq_id x \<noteq> i) \<and>
        mcqs (loadDB (markMCQPosted i p1 t1 f)) =
          pre @ m\<lparr>posted_at := Some t1, telegram_poll_id := str_or_null p1\<rparr> # post \<and>
        mcqs (loadDB (markMCQPosted i p2 t2 (markMCQPosted i p1 t1 f))) =
          pre @ m\<lparr>posted_at := Some t2, telegram_poll_id := str_or_null p2\<rparr> # post)"
proof -
  assume "i \<in> set (map mcq_id (mcqs (loadDB f)))"
  then have "findIndex (\<lambda>x. mcq_id x = i) (mcqs (loadDB f)) \<noteq> None"
    by (auto simp: findIndex_None)
  then obtain k where "findIndex (\<lambda>x. mcq_id x = i) (mcqs (loadDB f)) = Some k" by auto
  from findIndex_split[OF this] obtain pre m post
    where s: "mcqs (loadDB f) = pre @ m # post" and i: "mcq_id m = i"
      and n: "\<forall>x\<in>set pre. mcq_id x \<noteq> i" by blast
  let ?m1 = "m\<lparr>posted_at := Some t1, telegram_poll_id := str_or_null p1\<rparr>"
  have s1: "mcqs (loadDB (markMCQPosted i p1 t1 f)) = pre @ ?m1 # post"
    by (rule mark_first_with_id[OF s i n])
  have "mcq_id ?m1 = i" using i by simp
  from mark_first_with_id[OF s1 this n, of p2 t2]
  have s2: "mcqs (loadDB (markMCQPosted i p2 t2 (markMCQPosted i p1 t1 f))) =
      pre @ m\<lparr>posted_at := Some t2, telegram_poll_id := str_or_null p2\<rparr> # post"
    by simp
  from s i n s1 s2 show ?thesis by blast
qed

theorem mark_posted_twice_keeps_second_witness:
  "(1::int) \<in> set (map mcq_id (mcqs (loadDB (Json (Some 2) (Some [sample_mcq 1 None]))))) \<and>
   mcqs (loadDB (markMCQPosted 1 (Some ''p2'') 200
           (markMCQPosted 1 (Some ''p1'') 100 (Json (Some 2) (Some [sample_mcq 1 None]))))) =
     [(sample_mcq 1 None)\<lparr>posted_at := Some 200, telegram_poll_id := Some ''p2''\<rparr>]"
proof -
  let ?f = "Json (Some 2) (Some [sample_mcq 1 None])"
  have h: "(1::int) \<in> set (map mcq_id (mcqs (loadDB ?f)))"
    by (simp add: loadDB_def sample_mcq_def)
  from mark_posted_twice_keeps_second[OF h, of "Some ''p1''" 100 "Some ''p2''" 200]
  obtain pre m post where
    a: "mcqs (loadDB ?f) = pre @ m # post"
    and e: "mcqs (loadDB (markMCQPosted 1 (Some ''p2'') 200 (markMCQPosted 1 (Some ''p1'') 100 ?f))) =
      pre @ m\<lparr>posted_at := Some 200, telegram_poll_id := str_or_null (Some ''p2'')\<rparr> # post"
    by blast
  from a have "pre @ m # post = [sample_mcq 1 None]" by (simp add: loadDB_def)
  then have "pre = [] \<and> post = [] \<and> m = sample_mcq 1 None" by (cases pre) simp_all
  with e h show ?thesis by (simp add: str_or_null_def)
qed

text \<open>
  C2 as stated fails: a second call at a later clock reading and with a null poll id
  moves \<open>posted_at\<close> from 100 to 200 and replaces the stored poll id by null.
\<close>

theorem mark_posted_twice_counterexample:
  "map posted_at (mcqs (loadDB (markMCQPosted 1 (Some ''p1'') 100
       (Json (Some 2) (Some [sample_mcq 1 None]))))) = [Some 100] \<and>
   map telegram_poll_id (mcqs (loadDB (markMCQPosted 1 (Some ''p1'') 100
       (Json (Some 2) (Some [sample_mcq 1 None]))))) = [Some ''p1''] \<and>
   map posted_at (mcqs (loadDB (markMCQPosted 1 None 200 (markMCQPosted 1 (Some ''p1'') 100
       (Json (Some 2) (Some [sample_mcq 1 None])))))) = [Some 200] \<and>
   map telegram_poll_id (mcqs (loadDB (markMCQPosted 1 None 200 (markMCQPosted 1 (Some ''p1'') 100
       (Json (Some 2) (Some [sample_mcq 1 None])))))) = [None]"
  by (simp add: markMCQPosted_def loadDB_def saveDB_def sample_mcq_def str_or_null_def Let_def)

subsection \<open>Pause and resume\<close>

text \<open>
  C3. After start-up the scheduler is paused exactly when \<open>countPendingMCQs\<close> is 0 (so it
  is running exactly when something is pending), and from an empty document it is paused
  with no handle and no timer. An upload that is queued while the scheduler is paused
  leaves it running, with a handle and a live timer, and the handler itself makes a
  \<open>sendPoll\<close> call (the attempt \<open>startScheduler\<close> makes) before any timer fires. A
  delivery attempt that finds nothing pending pauses the scheduler, clears the handle
  and leaves no timer. From an empty document: when the first upload is queued and its
  own attempt delivers, the scheduler is running, the record is posted and nothing is
  pending; the next attempt pauses the scheduler and stops the timer.
\<close>

theorem scheduler_pause_resume:
  "(schedulerPaused (init r0 t0 (boot f)) \<longleftrightarrow> \<not> 0 < fst (countPendingMCQs f)) \<and>
   (mcqs (loadDB f) = [] \<longrightarrow>
      schedulerPaused (init r0 t0 (boot f)) \<and> schedulerHandle (init r0 t0 (boot f)) = None \<and>
      timers (init r0 t0 (boot f)) = []) \<and>
   (sched_inv w \<and> schedulerPaused w \<and>
    Queued k \<in> set (fst (upload toNumber isPrivate msg sender t r now w)) \<longrightarrow>
      \<not> schedulerPaused (snd (upload toNumber isPrivate msg sender t r now w)) \<and>
      schedulerHandle (snd (upload toNumber isPrivate msg sender t r now w)) \<noteq> None \<and>
      timers (snd (upload toNumber isPrivate msg sender t r now w)) \<noteq> [] \<and>
      (\<exists>q opts ci. take (Suc (length (calls w)))
                      (calls (snd (upload toNumber isPrivate msg sender t r now w))) =
                    calls w @ [SendPoll q opts ci])) \<and>
   (sched_inv w \<and> fst (countPendingMCQs (dbfile w)) = 0 \<longrightarrow>
      schedulerPaused (postNextMCQIfAny r now w) \<and>
      schedulerHandle (postNextMCQIfAny r now w) = None \<and>
      timers (postNextMCQIfAny r now w) = []) \<and>
   (mcqs (loadDB f) = [] \<and>
    Queued k \<in> set (fst (upload toNumber isPrivate msg sender t (Delivered pid) now
                           (init r0 t0 (boot f)))) \<longrightarrow>
      \<not> schedulerPaused (snd (upload toNumber isPrivate msg sender t (Delivered pid) now
                                (init r0 t0 (boot f)))) \<and>
      fst (countPendingMCQs (dbfile (snd (upload toNumber isPrivate msg sender t (Delivered pid) now
                                           (init r0 t0 (boot f)))))) = 0 \<and>
      (\<exists>x. mcqs (loadDB (dbfile (snd (upload toNumber isPrivate msg sender t (Delivered pid) now
                                      (init r0 t0 (boot f)))))) = [x] \<and>
           mcq_id x = k \<and> posted_at x = Some now) \<and>
      schedulerPaused (postNextMCQIfAny r2 t2
         (snd (upload toNumber isPrivate msg sender t (Delivered pid) now (init r0 t0 (boot f))))) \<and>
      schedulerHandle (postNextMCQIfAny r2 t2
         (snd (upload toNumber isPrivate msg sender t (Delivered pid) now (init r0 t0 (boot f))))) = None \<and>
      timers (postNextMCQIfAny r2 t2
         (snd (upload toNumber isPrivate msg sender t (Delivered pid) now (init r0 t0 (boot f))))) = [])"
proof -
  have A: "schedulerPaused (init r0 t0 (boot f)) \<longleftrightarrow> \<not> 0 < fst (countPendingMCQs f)"
    by (simp add: init_boot_paused)
  have E: "init r0 t0 (boot f) = boot f" if "mcqs (loadDB f) = []"
    using that by (simp add: init_boot_empty countPendingMCQs_def)
  have B: "schedulerPaused (init r0 t0 (boot f)) \<and> schedulerHandle (init r0 t0 (boot f)) = None \<and>
      timers (init r0 t0 (boot f)) = []" if "mcqs (loadDB f) = []"
    by (simp add: E[OF that]) (simp add: boot_def)
  note C = upload_while_paused[of w k toNumber isPrivate msg sender t r now]
  note D = tick_pauses[of w r now]
  have F: "\<not> schedulerPaused (snd (upload toNumber isPrivate msg sender t (Delivered pid) now
                                (init r0 t0 (boot f)))) \<and>
      fst (countPendingMCQs (dbfile (snd (upload toNumber isPrivate msg sender t (Delivered pid) now
                                           (init r0 t0 (boot f)))))) = 0 \<and>
      (\<exists>x. mcqs (loadDB (dbfile (snd (upload toNumber isPrivate msg sender t (Delivered pid) now
                                      (init r0 t0 (boot f)))))) = [x] \<and>
           mcq_id x = k \<and> posted_at x = Some now) \<and>
      schedulerPaused (postNextMCQIfAny r2 t2
         (snd (upload toNumber isPrivate msg sender t (Delivered pid) now (init r0 t0 (boot f))))) \<and>
      schedulerHandle (postNextMCQIfAny r2 t2
         (snd (upload toNumber isPrivate msg sender t (Delivered pid) now (init r0 t0 (boot f))))) = None \<and>
      timers (postNextMCQIfAny r2 t2
         (snd (upload toNumber isPrivate msg sender t (Delivered pid) now (init r0 t0 (boot f))))) = []"
    if e: "mcqs (loadDB f) = []"
      and q: "Queued k \<in> set (fst (upload toNumber isPrivate msg sender t (Delivered pid) now
                           (init r0 t0 (boot f))))"
  proof -
    from q have q': "Queued k \<in> set (fst (upload toNumber isPrivate msg sender t (Delivered pid) now (boot f)))"
      by (simp add: E[OF e])
    note s = first_upload_delivered[OF e q']
    from s tick_pauses[of "snd (upload toNumber isPrivate msg sender t (Delivered pid) now (boot f))" r2 t2]
    show ?thesis unfolding E[OF e] by blast
  qed
  from A B C D F show ?thesis by blast
qed

theorem scheduler_pause_resume_witness:
  "mcqs (loadDB (Unreadable :: mcq jsonfile)) = [] \<and>
   sched_inv (boot (Unreadable :: mcq jsonfile)) \<and>
   schedulerPaused (boot (Unreadable :: mcq jsonfile)) \<and>
   fst (countPendingMCQs (dbfile (boot Unreadable))) = 0 \<and>
   fst (upload sample_number True ''/upload 2+2=? || 3 || 4 || 5 || 1'' 7 10 (Delivered (Some ''p9'')) 11
          (init Failed 0 (boot Unreadable))) = [Queued 1, Restarted] \<and>
   \<not> schedulerPaused (snd (upload sample_number True ''/upload 2+2=? || 3 || 4 || 5 || 1'' 7 10
          (Delivered (Some ''p9'')) 11 (init Failed 0 (boot Unreadable)))) \<and>
   schedulerPaused (postNextMCQIfAny Failed 41
      (snd (upload sample_number True ''/upload 2+2=? || 3 || 4 || 5 || 1'' 7 10
          (Delivered (Some ''p9'')) 11 (init Failed 0 (boot Unreadable))))) \<and>
   timers (postNextMCQIfAny Failed 41
      (snd (upload sample_number True ''/upload 2+2=? || 3 || 4 || 5 || 1'' 7 10
          (Delivered (Some ''p9'')) 11 (init Failed 0 (boot Unreadable))))) = []"
proof -
  let ?msg = "''/upload 2+2=? || 3 || 4 || 5 || 1''"
  let ?b = "boot (Unreadable :: mcq jsonfile)"
  have h1: "mcqs (loadDB (Unreadable :: mcq jsonfile)) = []" by (simp add: loadDB_def)
  have h2: "sched_inv ?b" by (simp add: sched_inv_def boot_def)
  have h3: "schedulerPaused ?b" by (simp add: boot_def)
  have h4: "fst (countPendingMCQs (dbfile ?b)) = 0"
    by (simp add: countPendingMCQs_def boot_def loadDB_def)
  have i: "init Failed 0 ?b = ?b" by (simp add: init_def boot_def countPendingMCQs_def loadDB_def)
  have h5: "fst (upload sample_number True ?msg 7 10 (Delivered (Some ''p9'')) 11 (init Failed 0 ?b)) =
      [Queued 1, Restarted]"
    unfolding i
    by (simp add: upload_def upload_parts_def tokens_def js_trim_def white_def sample_number_def
          boot_def addMCQ_def js_incr_def loadDB_def Let_def split_beta)
  then have h6: "Queued 1 \<in> set (fst (upload sample_number True ?msg 7 10 (Delivered (Some ''p9'')) 11
      (init Failed 0 ?b)))"
    by simp
  note t = scheduler_pause_resume[of Failed 0 Unreadable ?b 1 sample_number True ?msg 7 10
      "Delivered (Some ''p9'')" 11 "Some ''p9''" Failed 41]
  from t h1 h6 have a: "\<not> schedulerPaused (snd (upload sample_number True ?msg 7 10
          (Delivered (Some ''p9'')) 11 (init Failed 0 ?b)))"
    by blast
  from t h1 h6 have b: "schedulerPaused (postNextMCQIfAny Failed 41
      (snd (upload sample_number True ?msg 7 10 (Delivered (Some ''p9'')) 11 (init Failed 0 ?b))))"
    by blast
  from t h1 h6 have c: "timers (postNextMCQIfAny Failed 41
      (snd (upload sample_number True ?msg 7 10 (Delivered (Some ''p9'')) 11 (init Failed 0 ?b)))) = []"
    by blast
  from h1 h2 h3 h4 h5 a b c show ?thesis by blast
qed

subsection \<open>A failed delivery is retried\<close>

text \<open>
  C4. A delivery attempt whose \<open>sendPoll\<close> throws returns normally: the file is left as
  it was, so the head pending record \<open>m\<close> still has a null \<open>posted_at\<close> and is the record
  the next attempt picks, and the scheduler's variables and the interval timer are
  untouched; \<open>markMCQPosted\<close> is not called. If the next attempt succeeds (in a
  well-formed document), \<open>m\<close> is pending after the first attempt, posted in place after
  the second, and the two attempts together call \<open>sendPoll\<close> twice for \<open>m\<close> and
  \<open>markMCQPosted\<close> exactly once.
\<close>

theorem failed_delivery_is_retried:
  "fst (getNextUnpostedMCQ (dbfile w)) = Some m \<Longrightarrow>
     dbfile (postNextMCQIfAny Failed t1 w) = dbfile w \<and>
     posted_at m = None \<and>
     fst (getNextUnpostedMCQ (dbfile (postNextMCQIfAny Failed t1 w))) = Some m \<and>
     schedulerPaused (postNextMCQIfAny Failed t1 w) = schedulerPaused w \<and>
     schedulerHandle (postNextMCQIfAny Failed t1 w) = schedulerHandle w \<and>
     timers (postNextMCQIfAny Failed t1 w) = timers w \<and>
     calls (postNextMCQIfAny Failed t1 w) =
       calls w @ [SendPoll (question m) (options m) (correct_index m)] \<and>
     calls (postNextMCQIfAny (Delivered pid) t2 (postNextMCQIfAny Failed t1 w)) =
       calls w @ [SendPoll (question m) (options m) (correct_index m),
                  SendPoll (question m) (options m) (correct_index m),
                  MarkPosted (mcq_id m) (str_or_null pid)] \<and>
     (wf_db (loadDB (dbfile w)) \<longrightarrow>
        (\<exists>pre post.
           mcqs (loadDB (dbfile (postNextMCQIfAny Failed t1 w))) = pre @ m # post \<and>
           mcqs (loadDB (dbfile (postNextMCQIfAny (Delivered pid) t2 (postNextMCQIfAny Failed t1 w)))) =
             pre @ m\<lparr>posted_at := Some t2, telegram_poll_id := str_or_null pid\<rparr> # post))"
proof -
  assume nxt: "fst (getNextUnpostedMCQ (dbfile w)) = Some m"
  let ?w1 = "postNextMCQIfAny Failed t1 w"
  let ?w2 = "postNextMCQIfAny (Delivered pid) t2 ?w1"
  note same = tick_failed_next[OF nxt, of t1]
  from same have f1: "dbfile ?w1 = dbfile w" by simp
  have nxt1: "fst (getNextUnpostedMCQ (dbfile ?w1)) = Some m" using nxt f1 by simp
  from next_split[OF nxt] obtain pre post
    where s: "mcqs (loadDB (dbfile w)) = pre @ m # post" and pm: "posted_at m = None" by blast
  have c1: "calls ?w1 = calls w @ [SendPoll (question m) (options m) (correct_index m)]"
    by (simp add: tick_failed[OF nxt])
  have c2: "calls ?w2 = calls w @ [SendPoll (question m) (options m) (correct_index m),
                  SendPoll (question m) (options m) (correct_index m),
                  MarkPosted (mcq_id m) (str_or_null pid)]"
    by (simp add: tick_delivered[OF nxt1] c1)
  have D: "\<exists>pre post.
           mcqs (loadDB (dbfile ?w1)) = pre @ m # post \<and>
           mcqs (loadDB (dbfile ?w2)) =
             pre @ m\<lparr>posted_at := Some t2, telegram_poll_id := str_or_null pid\<rparr> # post"
    if wf: "wf_db (loadDB (dbfile w))"
  proof -
    from wf f1 have wf1: "wf_db (loadDB (dbfile ?w1))" by simp
    from s f1 have s1: "mcqs (loadDB (dbfile ?w1)) = pre @ m # post" by simp
    from tick_delivered_mcqs[OF wf1 nxt1 s1, of pid t2] s1 show ?thesis by blast
  qed
  from same pm nxt1 c1 c2 D show ?thesis by blast
qed

theorem failed_delivery_is_retried_witness:
  "fst (getNextUnpostedMCQ (dbfile (boot (Json (Some 2) (Some [sample_mcq 1 None]))))) =
     Some (sample_mcq 1 None) \<and>
   wf_db (loadDB (dbfile (boot (Json (Some 2) (Some [sample_mcq 1 None]))))) \<and>
   dbfile (postNextMCQIfAny Failed 20 (boot (Json (Some 2) (Some [sample_mcq 1 None])))) =
     Json (Some 2) (Some [sample_mcq 1 None]) \<and>
   calls (postNextMCQIfAny (Delivered (Some ''p9'')) 50
           (postNextMCQIfAny Failed 20 (boot (Json (Some 2) (Some [sample_mcq 1 None]))))) =
     [SendPoll ''2+2=?'' [''3'', ''4'', ''5''] 1, SendPoll ''2+2=?'' [''3'', ''4'', ''5''] 1,
      MarkPosted 1 (Some ''p9'')] \<and>
   map posted_at (mcqs (loadDB (dbfile (postNextMCQIfAny (Delivered (Some ''p9'')) 50
           (postNextMCQIfAny Failed 20 (boot (Json (Some 2) (Some [sample_mcq 1 None])))))))) =
     [Some 50]"
proof -
  let ?w = "boot (Json (Some 2) (Some [sample_mcq 1 None]))"
  have h1: "fst (getNextUnpostedMCQ (dbfile ?w)) = Some (sample_mcq 1 None)"
    by (simp add: getNextUnpostedMCQ_def loadDB_def boot_def sample_mcq_def)
  have h2: "wf_db (loadDB (dbfile ?w))"
    by (simp add: wf_db_def loadDB_def boot_def sample_mcq_def)
  note t = failed_delivery_is_retried[OF h1, of 20 "Some ''p9''" 50]
  from t have a: "dbfile (postNextMCQIfAny Failed 20 ?w) = Json (Some 2) (Some [sample_mcq 1 None])"
    by (simp add: boot_def)
  from t have b: "calls (postNextMCQIfAny (Delivered (Some ''p9'')) 50 (postNextMCQIfAny Failed 20 ?w)) =
     [SendPoll ''2+2=?'' [''3'', ''4'', ''5''] 1, SendPoll ''2+2=?'' [''3'', ''4'', ''5''] 1,
      MarkPosted 1 (Some ''p9'')]"
    by (simp add: boot_def sample_mcq_def str_or_null_def)
  from t h2 obtain pre post where
    "mcqs (loadDB (dbfile (postNextMCQIfAny Failed 20 ?w))) = pre @ sample_mcq 1 None # post"
    and e: "mcqs (loadDB (dbfile (postNextMCQIfAny (Delivered (Some ''p9'')) 50 (postNextMCQIfAny Failed 20 ?w)))) =
      pre @ (sample_mcq 1 None)\<lparr>posted_at := Some 50, telegram_poll_id := str_or_null (Some ''p9'')\<rparr> # post"
    by blast
  with a have "pre @ sample_mcq 1 None # post = [sample_mcq 1 None]"
    by (simp add: loadDB_def)
  then have "pre = [] \<and> post = []" by (cases pre) simp_all
  with e have c: "map posted_at (mcqs (loadDB (dbfile (postNextMCQIfAny (Delivered (Some ''p9'')) 50
           (postNextMCQIfAny Failed 20 ?w))))) = [Some 50]"
    by simp
  from h1 h2 a b c show ?thesis by blast
qed

subsection \<open>Ids\<close>

text \<open>
  C5, as the code has it. From a well-formed document, and as long as \<open>nextId\<close> does not
  pass \<open>2^53\<close> (\<open>nextId\<close> plus the number of calls is at most 9007199254740992), the ids
  that a sequence of \<open>addMCQ\<close> calls assigns are strictly increasing in call order,
  pairwise different, and above every id already stored; the new entries are appended
  after the old ones, which stay as they were. An id once stored never changes:
  \<open>markMCQPosted\<close> leaves the list of ids as it is, and after any run of uploads and
  timer firings the ids stored before are still the first ids of the document, in the
  same order.
\<close>

theorem append_ids_increasing_below_limit:
  "wf_db (loadDB f) \<Longrightarrow> nextId (loadDB f) + int (length as) \<le> 9007199254740992 \<Longrightarrow>
     sorted_wrt (<) (map mcq_id (fst (append_all as f))) \<and>
     distinct (map mcq_id (fst (append_all as f))) \<and>
     (\<forall>m\<in>set (mcqs (loadDB f)). \<forall>e\<in>set (fst (append_all as f)). mcq_id m < mcq_id e) \<and>
     mcqs (loadDB (snd (append_all as f))) = mcqs (loadDB f) @ fst (append_all as f) \<and>
     map mcq_id (mcqs (loadDB (markMCQPosted i p now f))) = map mcq_id (mcqs (loadDB f)) \<and>
     take (length (mcqs (loadDB (dbfile w))))
          (map mcq_id (mcqs (loadDB (dbfile (run toNumber es w))))) =
       map mcq_id (mcqs (loadDB (dbfile w)))"
proof -
  assume wf: "wf_db (loadDB f)"
    and safe: "nextId (loadDB f) + int (length as) \<le> 9007199254740992"
  let ?es = "fst (append_all as f)"
  from append_all_spec[OF wf safe]
  have wf': "wf_db (loadDB (snd (append_all as f)))"
    and app: "mcqs (loadDB (snd (append_all as f))) = mcqs (loadDB f) @ ?es"
    by simp_all
  from wf' have "sorted_wrt (<) (map mcq_id (mcqs (loadDB f) @ ?es))"
    by (simp add: wf_db_def app)
  then have s: "sorted_wrt (<) (map mcq_id ?es)"
    and above: "\<forall>m\<in>set (mcqs (loadDB f)). \<forall>e\<in>set ?es. mcq_id m < mcq_id e"
    by (simp_all add: sorted_wrt_append)
  from s have d: "distinct (map mcq_id ?es)" by (simp add: strict_sorted_iff)
  from s d above app ids_markMCQPosted[of i p now f] ids_run[of w toNumber es]
  show ?thesis by blast
qed

theorem append_ids_increasing_below_limit_witness:
  "wf_db (loadDB (Unreadable :: mcq jsonfile)) \<and>
   nextId (loadDB (Unreadable :: mcq jsonfile)) +
     int (length [(''2+2=?'', [''3'', ''4'', ''5''], 1 :: int, Some (7 :: int), 10 :: int),
                  (''1+1=?'', [''1'', ''2''], 1, Some 7, 20)]) \<le> 9007199254740992 \<and>
   map mcq_id (fst (append_all [(''2+2=?'', [''3'', ''4'', ''5''], 1, Some 7, 10),
                                (''1+1=?'', [''1'', ''2''], 1, Some 7, 20)] Unreadable)) = [1, 2] \<and>
   sorted_wrt (<) (map mcq_id (fst (append_all [(''2+2=?'', [''3'', ''4'', ''5''], 1, Some 7, 10),
                                (''1+1=?'', [''1'', ''2''], 1, Some 7, 20)] Unreadable))) \<and>
   distinct (map mcq_id (fst (append_all [(''2+2=?'', [''3'', ''4'', ''5''], 1, Some 7, 10),
                                (''1+1=?'', [''1'', ''2''], 1, Some 7, 20)] Unreadable)))"
proof -
  have h: "wf_db (loadDB (Unreadable :: mcq jsonfile))"
    by (simp add: wf_db_def loadDB_def)
  have b: "nextId (loadDB (Unreadable :: mcq jsonfile)) +
     int (length [(''2+2=?'', [''3'', ''4'', ''5''], 1 :: int, Some (7 :: int), 10 :: int),
                  (''1+1=?'', [''1'', ''2''], 1, Some 7, 20)]) \<le> 9007199254740992"
    by (simp add: loadDB_def)
  have v: "map mcq_id (fst (append_all [(''2+2=?'', [''3'', ''4'', ''5''], 1, Some 7, 10),
                                (''1+1=?'', [''1'', ''2''], 1, Some 7, 20)] Unreadable)) = [1, 2]"
    by (simp add: addMCQ_def loadDB_def saveDB_def js_incr_def Let_def)
  from append_ids_increasing_below_limit[OF h b] h b v
  show ?thesis by blast
qed

text \<open>
  C5 as stated fails: the document with \<open>nextId\<close> at \<open>2^53\<close> and no records is well
  formed, and two \<open>addMCQ\<close> calls on it assign the id \<open>2^53\<close> twice, because \<open>nextId++\<close>
  leaves a double of that size where it is.
\<close>

theorem append_ids_repeat_counterexample:
  "wf_db (loadDB (Json (Some 9007199254740992) (Some ([] :: mcq list)))) \<and>
   map mcq_id (fst (append_all [(''2+2=?'', [''3'', ''4'', ''5''], 1, Some 7, 10),
                                (''1+1=?'', [''1'', ''2''], 1, Some 7, 20)]
                      (Json (Some 9007199254740992) (Some [])))) =
     [9007199254740992, 9007199254740992]"
  by (simp add: wf_db_def addMCQ_def loadDB_def saveDB_def js_incr_def Let_def)

subsection \<open>The pending count\<close>

text \<open>
  C6. One \<open>addMCQ\<close> raises \<open>countPendingMCQs\<close> by exactly 1, for every file. In a
  well-formed document, a delivery attempt that finds a pending record \<open>m\<close> and whose
  \<open>sendPoll\<close> succeeds lowers the count by exactly 1 and replaces \<open>m\<close>, in place, by
  \<open>m\<close> with \<open>posted_at\<close> set to the clock reading (so not null) and the poll id
  stored; every other record is left as it was.
\<close>

theorem count_pending_append_and_delivery:
  "fst (countPendingMCQs (snd (addMCQ q opts ci u t f))) = fst (countPendingMCQs f) + 1 \<and>
   (wf_db (loadDB (dbfile w)) \<and> fst (getNextUnpostedMCQ (dbfile w)) = Some m \<longrightarrow>
      fst (countPendingMCQs (dbfile w)) =
        fst (countPendingMCQs (dbfile (postNextMCQIfAny (Delivered pid) now w))) + 1 \<and>
      (\<exists>pre post.
         mcqs (loadDB (dbfile w)) = pre @ m # post \<and>
         mcqs (loadDB (dbfile (postNextMCQIfAny (Delivered pid) now w))) =
           pre @ m\<lparr>posted_at := Some now, telegram_poll_id := str_or_null pid\<rparr> # post))"
proof -
  have A: "fst (countPendingMCQs (snd (addMCQ q opts ci u t f))) = fst (countPendingMCQs f) + 1"
    by (simp add: countPendingMCQs_def mcqs_addMCQ fst_addMCQ)
  have B: "fst (countPendingMCQs (dbfile w)) =
        fst (countPendingMCQs (dbfile (postNextMCQIfAny (Delivered pid) now w))) + 1 \<and>
      (\<exists>pre post.
         mcqs (loadDB (dbfile w)) = pre @ m # post \<and>
         mcqs (loadDB (dbfile (postNextMCQIfAny (Delivered pid) now w))) =
           pre @ m\<lparr>posted_at := Some now, telegram_poll_id := str_or_null pid\<rparr> # post)"
    if wf: "wf_db (loadDB (dbfile w))" and nxt: "fst (getNextUnpostedMCQ (dbfile w)) = Some m"
  proof -
    from next_split[OF nxt] obtain pre post
      where s: "mcqs (loadDB (dbfile w)) = pre @ m # post" and pm: "posted_at m = None"
        and pp: "\<forall>x\<in>set pre. posted_at x \<noteq> None" by blast
    let ?w' = "postNextMCQIfAny (Delivered pid) now w"
    let ?m' = "m\<lparr>posted_at := Some now, telegram_poll_id := str_or_null pid\<rparr>"
    have s': "mcqs (loadDB (dbfile ?w')) = pre @ ?m' # post"
      by (rule tick_delivered_mcqs[OF wf nxt s])
    have "fst (countPendingMCQs (dbfile w)) = 1 + length (filter (\<lambda>x. posted_at x = None) post)"
      using count_split[OF s pp] pm by simp
    moreover have "fst (countPendingMCQs (dbfile ?w')) = length (filter (\<lambda>x. posted_at x = None) post)"
      using count_split[OF s' pp] by simp
    ultimately show ?thesis using s s' by auto
  qed
  from A B show ?thesis by blast
qed

theorem count_pending_append_and_delivery_witness:
  "wf_db (loadDB (Json (Some 3) (Some [sample_mcq 1 (Some 5), sample_mcq 2 None]))) \<and>
   fst (getNextUnpostedMCQ (Json (Some 3) (Some [sample_mcq 1 (Some 5), sample_mcq 2 None]))) =
     Some (sample_mcq 2 None) \<and>
   fst (countPendingMCQs (Json (Some 3) (Some [sample_mcq 1 (Some 5), sample_mcq 2 None]))) = 1 \<and>
   fst (countPendingMCQs (dbfile (postNextMCQIfAny (Delivered (Some ''p9'')) 30
          (boot (Json (Some 3) (Some [sample_mcq 1 (Some 5), sample_mcq 2 None])))))) = 0"
proof -
  let ?f = "Json (Some 3) (Some [sample_mcq 1 (Some 5), sample_mcq 2 None])"
  have h1: "wf_db (loadDB (dbfile (boot ?f)))"
    by (simp add: wf_db_def loadDB_def boot_def sample_mcq_def)
  have h2: "fst (getNextUnpostedMCQ (dbfile (boot ?f))) = Some (sample_mcq 2 None)"
    by (simp add: getNextUnpostedMCQ_def loadDB_def boot_def sample_mcq_def)
  have c: "fst (countPendingMCQs ?f) = 1"
    by (simp add: countPendingMCQs_def loadDB_def sample_mcq_def)
  from count_pending_append_and_delivery[of _ _ _ _ _ _ "boot ?f" "sample_mcq 2 None" "Some ''p9''" 30]
    h1 h2
  have "fst (countPendingMCQs (dbfile (boot ?f))) =
        fst (countPendingMCQs (dbfile (postNextMCQIfAny (Delivered (Some ''p9'')) 30 (boot ?f)))) + 1"
    by blast
  with c have "fst (countPendingMCQs (dbfile (postNextMCQIfAny (Delivered (Some ''p9'')) 30 (boot ?f)))) = 0"
    by (simp add: boot_def)
  with h1 h2 c show ?thesis by (simp add: boot_def)
qed

subsection \<open>Validation in the store\<close>

text \<open>
  C7, as the code has it. \<open>addMCQ\<close> tests nothing: whatever question, options and index
  it is given, it builds the entry with the next id and appends it to the document. The
  tests are made by the caller only: when the upload handler of the newest variant
  answers that an entry is queued, the document holds a record with that id, a
  non-empty question, 2 to 10 options and an index within them, and when it does not
  answer so, it has changed nothing.
\<close>

theorem append_does_not_validate:
  "fst (addMCQ q opts ci u t f) =
     \<lparr>mcq_id = nextId (loadDB f), question = q, options = opts, correct_index = ci,
      uploaded_by = num_or_null u, uploaded_at = t, posted_at = None,
      telegram_poll_id = None\<rparr> \<and>
   mcqs (loadDB (snd (addMCQ q opts ci u t f))) = mcqs (loadDB f) @ [fst (addMCQ q opts ci u t f)] \<and>
   (Queued k \<in> set (fst (upload toNumber isPrivate msg sender t' r now w)) \<longrightarrow>
      (\<exists>x\<in>set (mcqs (loadDB (dbfile (snd (upload toNumber isPrivate msg sender t' r now w))))).
         mcq_id x = k \<and> question x \<noteq> [] \<and> 2 \<le> length (options x) \<and> length (options x) \<le> 10 \<and>
         0 \<le> correct_index x \<and> correct_index x < int (length (options x)))) \<and>
   ((\<forall>j. Queued j \<notin> set (fst (upload toNumber isPrivate msg sender t' r now w))) \<longrightarrow>
      snd (upload toNumber isPrivate msg sender t' r now w) = w)"
  using fst_addMCQ[of q opts ci u t f] mcqs_addMCQ[of q opts ci u t f]
    upload_queues_valid_record[of k toNumber isPrivate msg sender t' r now w]
    upload_rejected_unchanged[of toNumber isPrivate msg sender t' r now w]
  by blast

theorem append_does_not_validate_witness:
  "Queued 1 \<in> set (fst (upload sample_number True ''/upload 2+2=? || 3 || 4 || 5 || 1'' 7 10 Failed 11
                           (boot Unreadable))) \<and>
   (\<forall>j. Queued j \<notin> set (fst (upload sample_number True ''/upload 2+2=? || 3 || 9'' 7 10 Failed 11
                                (boot Unreadable)))) \<and>
   snd (upload sample_number True ''/upload 2+2=? || 3 || 9'' 7 10 Failed 11 (boot Unreadable)) =
     boot Unreadable \<and>
   (\<exists>x\<in>set (mcqs (loadDB (dbfile (snd (upload sample_number True ''/upload 2+2=? || 3 || 4 || 5 || 1''
                                          7 10 Failed 11 (boot Unreadable)))))).
      mcq_id x = 1 \<and> question x \<noteq> [] \<and> 2 \<le> length (options x) \<and> length (options x) \<le> 10 \<and>
      0 \<le> correct_index x \<and> correct_index x < int (length (options x)))"
proof -
  have h1: "fst (upload sample_number True ''/upload 2+2=? || 3 || 4 || 5 || 1'' 7 10 Failed 11
                           (boot Unreadable)) = [Queued 1, Restarted]"
    by (simp add: upload_def upload_parts_def tokens_def js_trim_def white_def sample_number_def
          boot_def addMCQ_def js_incr_def loadDB_def Let_def split_beta)
  have h2: "fst (upload sample_number True ''/upload 2+2=? || 3 || 9'' 7 10 Failed 11
                           (boot Unreadable)) = [InvalidIndex]"
    by (simp add: upload_def upload_parts_def tokens_def js_trim_def white_def sample_number_def
          boot_def Let_def split_beta)
  from h1 have q: "Queued 1 \<in> set (fst (upload sample_number True ''/upload 2+2=? || 3 || 4 || 5 || 1'' 7 10 Failed 11
                           (boot Unreadable)))"
    by simp
  from h2 have n: "\<forall>j. Queued j \<notin> set (fst (upload sample_number True ''/upload 2+2=? || 3 || 9'' 7 10 Failed 11
                                (boot Unreadable)))"
    by simp
  from append_does_not_validate[of _ _ _ _ _ _ 1 sample_number True
      "''/upload 2+2=? || 3 || 4 || 5 || 1''" 7 10 Failed 11 "boot Unreadable"] q
  have a: "\<exists>x\<in>set (mcqs (loadDB (dbfile (snd (upload sample_number True ''/upload 2+2=? || 3 || 4 || 5 || 1''
                                          7 10 Failed 11 (boot Unreadable)))))).
      mcq_id x = 1 \<and> question x \<noteq> [] \<and> 2 \<le> length (options x) \<and> length (options x) \<le> 10 \<and>
      0 \<le> correct_index x \<and> correct_index x < int (length (options x))"
    by blast
  from append_does_not_validate[of _ _ _ _ _ _ _ sample_number True
      "''/upload 2+2=? || 3 || 9''" 7 10 Failed 11 "boot Unreadable"] n
  have b: "snd (upload sample_number True ''/upload 2+2=? || 3 || 9'' 7 10 Failed 11 (boot Unreadable)) =
     boot Unreadable"
    by blast
  from q n a b show ?thesis by blast
qed

text \<open>
  C7 as stated fails: \<open>addMCQ\<close>, called with an empty question, no options and index 5,
  returns an entry and writes it to the document.
\<close>

theorem append_does_not_validate_counterexample:
  "snd (addMCQ [] [] 5 None 0 Unreadable) =
     Json (Some 2)
       (Some [\<lparr>mcq_id = 1, question = [], options = [], correct_index = 5, uploaded_by = None,
               uploaded_at = 0, posted_at = None, telegram_poll_id = None\<rparr>]) \<and>
   fst (countPendingMCQs (snd (addMCQ [] [] 5 None 0 Unreadable))) = 1 \<and>
   fst (countPendingMCQs Unreadable) = 0"
  by (simp add: addMCQ_def js_incr_def loadDB_def saveDB_def countPendingMCQs_def num_or_null_def Let_def)

subsection \<open>Validation in the upload handler\<close>

text \<open>
  C8 on \<open>bot.js\<close>. Its handler answers "Need: question + 2+ options + index." to fewer
  than three tokens, which lets a single option through, and it has no test on the number
  of options: a message with one option and index 0 is queued, and so is a message with
  eleven options. (The handler of the newest variant has both tests: see
  \<open>upload_parts_rejects\<close> and \<open>upload_queues_valid_record\<close>.)
\<close>

theorem legacy_upload_accepts_bad_option_counts:
  "fst (upload_legacy sample_number True ''/upload Q, A, 0'' 7 (boot Unreadable)) = [Queued 1] \<and>
   map options (mcqs (loadDB (dbfile (snd
     (upload_legacy sample_number True ''/upload Q, A, 0'' 7 (boot Unreadable)))))) = [[''A'']] \<and>
   fst (upload_legacy sample_number True ''/upload Q,a,b,c,d,e,f,g,h,i,j,k,0'' 7 (boot Unreadable)) =
     [Queued 1] \<and>
   map length (map options (mcqs (loadDB (dbfile (snd
     (upload_legacy sample_number True ''/upload Q,a,b,c,d,e,f,g,h,i,j,k,0'' 7 (boot Unreadable))))))) =
     [11]"
  by (simp add: upload_legacy_def tokens_def js_trim_def white_def sample_number_def
        boot_def addMCQ_legacy_def js_incr_def loadDB_def saveDB_def startScheduler_legacy_def
        setInterval_def Let_def split_beta)

subsection \<open>The paused flag and the timer\<close>

text \<open>
  C9. \<open>schedulerPaused\<close> is true exactly when \<open>schedulerHandle\<close> is null, and exactly
  when the runtime holds no interval timer: this holds for the module's initial values,
  is kept by \<open>startScheduler\<close>, \<open>pauseScheduler\<close>, a delivery attempt and the upload
  handler, and therefore holds after start-up followed by any sequence of uploads and
  timer firings.
\<close>

theorem scheduler_flag_agrees_with_timer:
  "sched_inv (boot f) \<and>
   (sched_inv w \<longrightarrow>
      sched_inv (startScheduler r now w) \<and> sched_inv (pauseScheduler w) \<and>
      sched_inv (postNextMCQIfAny r now w) \<and>
      sched_inv (snd (upload toNumber isPrivate msg sender t r now w))) \<and>
   ((schedulerPaused (run toNumber es (init r0 t0 (boot f))) \<longleftrightarrow>
       schedulerHandle (run toNumber es (init r0 t0 (boot f))) = None) \<and>
    (schedulerPaused (run toNumber es (init r0 t0 (boot f))) \<longleftrightarrow>
       timers (run toNumber es (init r0 t0 (boot f))) = []))"
proof -
  have "sched_inv (run toNumber es (init r0 t0 (boot f)))"
    by (intro sched_inv_run sched_inv_init sched_inv_boot)
  then have C: "(schedulerPaused (run toNumber es (init r0 t0 (boot f))) \<longleftrightarrow>
       schedulerHandle (run toNumber es (init r0 t0 (boot f))) = None) \<and>
    (schedulerPaused (run toNumber es (init r0 t0 (boot f))) \<longleftrightarrow>
       timers (run toNumber es (init r0 t0 (boot f))) = [])"
    by (auto simp: sched_inv_def split: option.splits)
  have A: "sched_inv (boot f)" by (rule sched_inv_boot)
  have B: "sched_inv w \<longrightarrow>
      sched_inv (startScheduler r now w) \<and> sched_inv (pauseScheduler w) \<and>
      sched_inv (postNextMCQIfAny r now w) \<and>
      sched_inv (snd (upload toNumber isPrivate msg sender t r now w))"
    by (simp add: sched_inv_start sched_inv_pause sched_inv_tick sched_inv_upload)
  from A B C show ?thesis by blast
qed

theorem scheduler_flag_agrees_with_timer_witness:
  "sched_inv (boot (Unreadable :: mcq jsonfile)) \<and>
   sched_inv (snd (upload sample_number True ''/upload 2+2=? || 3 || 4 || 5 || 1'' 7 10 Failed 11
                     (boot Unreadable))) \<and>
   \<not> schedulerPaused (snd (upload sample_number True ''/upload 2+2=? || 3 || 4 || 5 || 1'' 7 10 Failed 11
                     (boot Unreadable))) \<and>
   schedulerPaused (run sample_number [Tick Failed 5] (init Failed 0 (boot Unreadable))) \<and>
   schedulerHandle (run sample_number [Tick Failed 5] (init Failed 0 (boot Unreadable))) = None"
proof -
  have h: "sched_inv (boot (Unreadable :: mcq jsonfile))"
    by (simp add: sched_inv_def boot_def)
  have u: "\<not> schedulerPaused (snd (upload sample_number True ''/upload 2+2=? || 3 || 4 || 5 || 1'' 7 10 Failed 11
                     (boot Unreadable)))"
    by (simp add: upload_def upload_parts_def tokens_def js_trim_def white_def sample_number_def
          boot_def addMCQ_def js_incr_def loadDB_def saveDB_def startScheduler_def setInterval_def
          postNextMCQIfAny_def getNextUnpostedMCQ_def num_or_null_def Let_def)
  have p: "schedulerPaused (run sample_number [Tick Failed 5] (init Failed 0 (boot Unreadable)))"
    by (simp add: init_def boot_def countPendingMCQs_def loadDB_def)
  from scheduler_flag_agrees_with_timer[of Unreadable "boot Unreadable" Failed 11 sample_number
      True "''/upload 2+2=? || 3 || 4 || 5 || 1''" 7 10 "[Tick Failed 5]" Failed 0] h u p
  show ?thesis by simp
qed

subsection \<open>A posted record without a poll id\<close>

text \<open>
  C10. In a well-formed document, a delivery attempt that finds a pending record \<open>m\<close>
  and whose \<open>sendPoll\<close> returns a response without a poll id (\<open>res?.poll?.id\<close> undefined,
  or the empty string) calls \<open>markMCQPosted\<close> with a null poll id and leaves \<open>m\<close>, in
  place, with \<open>posted_at\<close> set to the clock reading and \<open>telegram_poll_id\<close> null: a
  posted record need not have a poll id.
\<close>

theorem posted_without_poll_id:
  "wf_db (loadDB (dbfile w)) \<Longrightarrow> fst (getNextUnpostedMCQ (dbfile w)) = Some m \<Longrightarrow>
   pid = None \<or> pid = Some [] \<Longrightarrow>
     calls (postNextMCQIfAny (Delivered pid) now w) =
       calls w @ [SendPoll (question m) (options m) (correct_index m), MarkPosted (mcq_id m) None] \<and>
     (\<exists>pre post.
        mcqs (loadDB (dbfile w)) = pre @ m # post \<and>
        mcqs (loadDB (dbfile (postNextMCQIfAny (Delivered pid) now w))) =
          pre @ m\<lparr>posted_at := Some now, telegram_poll_id := None\<rparr> # post)"
proof -
  assume wf: "wf_db (loadDB (dbfile w))" and nxt: "fst (getNextUnpostedMCQ (dbfile w)) = Some m"
    and pid: "pid = None \<or> pid = Some []"
  from pid have n: "str_or_null pid = None" by (auto simp: str_or_null_def)
  from next_split[OF nxt] obtain pre post
    where s: "mcqs (loadDB (dbfile w)) = pre @ m # post" by blast
  from tick_delivered_mcqs[OF wf nxt s, of pid now] s n
  have "\<exists>pre post.
        mcqs (loadDB (dbfile w)) = pre @ m # post \<and>
        mcqs (loadDB (dbfile (postNextMCQIfAny (Delivered pid) now w))) =
          pre @ m\<lparr>posted_at := Some now, telegram_poll_id := None\<rparr> # post"
    by auto
  moreover have "calls (postNextMCQIfAny (Delivered pid) now w) =
       calls w @ [SendPoll (question m) (options m) (correct_index m), MarkPosted (mcq_id m) None]"
    by (simp add: tick_delivered[OF nxt] n)
  ultimately show ?thesis by blast
qed

theorem posted_without_poll_id_witness:
  "wf_db (loadDB (dbfile (boot (Json (Some 2) (Some [sample_mcq 1 None]))))) \<and>
   fst (getNextUnpostedMCQ (dbfile (boot (Json (Some 2) (Some [sample_mcq 1 None]))))) =
     Some (sample_mcq 1 None) \<and>
   mcqs (loadDB (dbfile (postNextMCQIfAny (Delivered None) 50
           (boot (Json (Some 2) (Some [sample_mcq 1 None])))))) =
     [(sample_mcq 1 None)\<lparr>posted_at := Some 50, telegram_poll_id := None\<rparr>]"
proof -
  let ?w = "boot (Json (Some 2) (Some [sample_mcq 1 None]))"
  have h1: "wf_db (loadDB (dbfile ?w))"
    by (simp add: wf_db_def loadDB_def boot_def sample_mcq_def)
  have h2: "fst (getNextUnpostedMCQ (dbfile ?w)) = Some (sample_mcq 1 None)"
    by (simp add: getNextUnpostedMCQ_def loadDB_def boot_def sample_mcq_def)
  from posted_without_poll_id[OF h1 h2, of None 50] obtain pre post where
    a: "mcqs (loadDB (dbfile ?w)) = pre @ sample_mcq 1 None # post"
    and e: "mcqs (loadDB (dbfile (postNextMCQIfAny (Delivered None) 50 ?w))) =
      pre @ (sample_mcq 1 None)\<lparr>posted_at := Some 50, telegram_poll_id := None\<rparr> # post"
    by blast
  from a have "pre @ sample_mcq 1 None # post = [sample_mcq 1 None]"
    by (simp add: loadDB_def boot_def)
  then have "pre = [] \<and> post = []" by (cases pre) simp_all
  with e h1 h2 show ?thesis by simp
qed

end
